theory Spec2Isabelle
  imports Main "HOL-Library.Word" "HOL-Library.AList"
begin

unbundle bit_operations_syntax

section \<open>The graph data model\<close>

text \<open>
  The analysis engine (analysis.ts) returns a graph of nodes and edges.  The sources hold
  two versions of the engine; this is the later one, with hashed ids and the wiring
  graph.  Roles and syntax kinds are string literals in the source; each is a datatype
  here.  Optional fields (\<open>className?\<close>, \<open>role?\<close>, \<open>isAsync?\<close>) are options.
\<close>

datatype role = RModule | RController | RService | RProvider | RHelper

datatype syntax_kind =
  FunctionDeclaration | MethodDeclaration | FunctionExpression | ArrowFunction
  | ClassDeclaration | OtherKind

record GraphNode =
  gn_id :: string
  gn_label :: string
  gn_kind :: syntax_kind
  gn_isAsync :: "bool option"
  gn_filePath :: string
  gn_fileKey :: string
  gn_className :: "string option"
  gn_role :: "role option"

record GraphEdge =
  e_from :: string
  e_to :: string
  e_crossFile :: bool

record Graph =
  nodes :: "GraphNode list"
  edges :: "GraphEdge list"

section \<open>String helpers of the source\<close>

text \<open>\<open>parts.join(sep)\<close>.\<close>

fun join :: "string \<Rightarrow> string list \<Rightarrow> string" where
  "join sep [] = []"
| "join sep [x] = x"
| "join sep (x # y # ys) = x @ sep @ join sep (y # ys)"

text \<open>\<open>p.split("/")\<close>: the pieces between the slashes, empty pieces included.\<close>

fun split_slash :: "string \<Rightarrow> string list" where
  "split_slash [] = [[]]"
| "split_slash (c # cs) =
     (if c = CHR ''/'' then [] # split_slash cs
      else (case split_slash cs of
              [] \<Rightarrow> [[c]]
            | p # ps \<Rightarrow> (c # p) # ps))"

text \<open>
  \<open>simplifyPath\<close>: drop the empty pieces (\<open>filter(Boolean)\<close>), keep the path from the first
  piece \<open>src\<close> on, or the last three pieces when there is none.  \<open>Math.max(0, n - 3)\<close> is
  the truncating subtraction of \<open>nat\<close>.
\<close>

definition simplifyPath :: "string \<Rightarrow> string" where
  "simplifyPath p =
     (let parts = filter (\<lambda>s. s \<noteq> []) (split_slash p) in
      if ''src'' \<in> set parts
      then join ''/'' (dropWhile (\<lambda>s. s \<noteq> ''src'') parts)
      else join ''/'' (drop (length parts - 3) parts))"

subsection \<open>The short hash\<close>

text \<open>
  \<open>shortHash\<close> is 32-bit FNV-1a (\<open>h ^= code; h = Math.imul(h, 16777619)\<close>), read as an
  unsigned number (\<open>h >>> 0\<close>), printed in base 36 and cut to six characters.
\<close>

definition digit36 :: "nat \<Rightarrow> char" where
  "digit36 d = (if d < 10 then char_of (48 + d) else char_of (87 + d))"

fun toString36 :: "nat \<Rightarrow> string \<Rightarrow> string" where
  "toString36 n acc =
     (if n < 36 then digit36 n # acc
      else toString36 (n div 36) (digit36 (n mod 36) # acc))"

declare toString36.simps [simp del]

definition fnv1a :: "string \<Rightarrow> 32 word" where
  "fnv1a input = foldl (\<lambda>h c. (h XOR of_char c) * 16777619) 2166136261 input"

definition shortHash :: "string \<Rightarrow> string" where
  "shortHash input = take 6 (toString36 (unat (fnv1a input)) [])"

section \<open>Graph assembly: de-duplication\<close>

text \<open>
  \<open>new Map(entries)\<close> inserts the entries in order; setting a key that is already present
  keeps its position and replaces its value, and iteration follows first insertion.  That
  is \<open>AList.update\<close> folded over the entries.
\<close>

definition mapFromEntries :: "('k \<times> 'v) list \<Rightarrow> ('k \<times> 'v) list" where
  "mapFromEntries es = foldl (\<lambda>m kv. AList.update (fst kv) (snd kv) m) [] es"

text \<open>\<open>Array.from(new Map(nodes.map((n) => [n.id, n])).values())\<close>\<close>

definition uniqueNodes :: "GraphNode list \<Rightarrow> GraphNode list" where
  "uniqueNodes ns = map snd (mapFromEntries (map (\<lambda>n. (gn_id n, n)) ns))"

text \<open>The edge key \<open>`${e.from}|${e.to}`\<close>.\<close>

definition edgeKey :: "GraphEdge \<Rightarrow> string" where
  "edgeKey e = e_from e @ ''|'' @ e_to e"

definition uniqueEdges :: "GraphEdge list \<Rightarrow> GraphEdge list" where
  "uniqueEdges es = map snd (mapFromEntries (map (\<lambda>e. (edgeKey e, e)) es))"

section \<open>The parsed program\<close>

text \<open>
  The engine reads a ts-morph \<open>Project\<close>: syntax trees plus the answers of the type checker.
  Parser and checker are a library; their results are the input here.  A declaration node
  that the checker returns carries what the engine reads from it: its syntax kind, its
  identity (the engine keys a map by the node object), and the class declaration it is or
  lies in (\<open>Node.isClassDeclaration(d) ? d : d.getFirstAncestorByKind(ClassDeclaration)\<close>).
  Of a class reached through the checker the engine reads the file path, the name and the
  decorator names.
\<close>

record ClassRef =
  cr_filePath :: string
  cr_name :: "string option"
  cr_decorators :: "string list"

datatype DeclNode =
  DeclNode (getKind: syntax_kind) (ident: nat) (classOf: "ClassRef option")

datatype TsSymbol =
  TsSymbol (getAliasedSymbol: "TsSymbol option") (getDeclarations: "DeclNode list")

text \<open>\<open>unwrapAlias\<close>: \<open>sym.getAliasedSymbol?.() || sym\<close>, one level.\<close>

definition unwrapAlias :: "TsSymbol \<Rightarrow> TsSymbol" where
  "unwrapAlias symb = (case getAliasedSymbol symb of Some a \<Rightarrow> a | None \<Rightarrow> symb)"

text \<open>
  The callee expression of a call, with what the checker says about it: the symbol at the
  name node of a property access; for an element access the property found on the
  receiver's type under the literal key (if any) and the symbol at the whole expression;
  the symbol at any other expression.
\<close>

datatype CallExpression =
  PropertyAccessCall "TsSymbol option"
  | ElementAccessCall "TsSymbol option" "TsSymbol option"
  | OtherCall "TsSymbol option"
  | NoExpression

text \<open>
  Decorator arguments: the symbol at the first argument, and its properties when it is an
  object literal.  A property initializer is an array literal of elements or another
  expression.
\<close>

datatype Element = SpreadElement | ElementExpr "TsSymbol option"

datatype Expression = ArrayLiteralExpression "Element list" | OtherExpression "TsSymbol option"

datatype ObjectProperty = PropertyAssignment string "Expression option" | OtherProperty

datatype DecoratorArg =
  DecoratorArg (arg_symbol: "TsSymbol option") (arg_objectLiteral: "ObjectProperty list option")

record Decorator =
  d_name :: string
  d_arg0 :: "DecoratorArg option"

record ParameterDeclaration =
  p_typeText :: "string option"
  p_text :: string
  p_decorators :: "Decorator list"
  p_typeSymbol :: "TsSymbol option"

record Callable =
  c_ident :: nat
  c_kind :: syntax_kind
  c_getName :: "string option"
  c_isAsync :: bool
  c_parameters :: "ParameterDeclaration list"
  c_callExpressions :: "CallExpression list"

datatype Initializer = FunctionInit Callable | OtherInit

record PropertyDeclaration =
  prop_name :: "string option"
  prop_initializer :: "Initializer option"

record VariableDeclaration =
  v_name :: "string option"
  v_initializer :: "Initializer option"

record ConstructorDeclaration =
  ctor_parameters :: "ParameterDeclaration list"

record ClassDecl =
  cls_name :: "string option"
  cls_decorators :: "Decorator list"
  cls_methods :: "Callable list"
  cls_properties :: "PropertyDeclaration list"
  cls_constructors :: "ConstructorDeclaration list"

record SourceFile =
  sf_filePath :: string
  sf_baseName :: string
  sf_functions :: "Callable list"
  sf_classes :: "ClassDecl list"
  sf_variableDeclarations :: "VariableDeclaration list"

text \<open>\<open>project.getSourceFile(filePath)\<close>\<close>

type_synonym Project = "string \<Rightarrow> SourceFile option"

section \<open>Role of a class\<close>

text \<open>
  The regular expressions of \<open>getClassRole\<close> carry the flag \<open>i\<close>: a character matches a
  pattern letter when both have the same upper-case form.
\<close>

definition canonicalize :: "char \<Rightarrow> char" where
  "canonicalize c =
     (let n = (of_char c :: nat) in if 97 \<le> n \<and> n \<le> 122 then char_of (n - 32) else c)"

text \<open>\<open>/pat$/i.test(s)\<close> for a literal pattern.\<close>

definition endsWithI :: "string \<Rightarrow> string \<Rightarrow> bool" where
  "endsWithI pat s \<longleftrightarrow>
     length pat \<le> length s
     \<and> map canonicalize (drop (length s - length pat) s) = map canonicalize pat"

text \<open>\<open>/pat/i.test(s)\<close> for a literal pattern.\<close>

fun containsI :: "string \<Rightarrow> string \<Rightarrow> bool" where
  "containsI pat [] = (pat = [])"
| "containsI pat (c # cs) =
     (map canonicalize (take (length pat) (c # cs)) = map canonicalize pat \<or> containsI pat cs)"

definition decoratorNames :: "ClassDecl \<Rightarrow> string list" where
  "decoratorNames cls = map d_name (cls_decorators cls)"

definition getClassRole :: "ClassDecl \<Rightarrow> SourceFile \<Rightarrow> role option" where
  "getClassRole cls sf =
     (let name = (case cls_name cls of Some n \<Rightarrow> n | None \<Rightarrow> []);
          decos = decoratorNames cls in
      if ''Module'' \<in> set decos \<or> endsWithI ''Module'' name
         \<or> containsI ''.module.'' (sf_baseName sf) then Some RModule
      else if ''Controller'' \<in> set decos \<or> endsWithI ''Controller'' name then Some RController
      else if ''Injectable'' \<in> set decos \<or> endsWithI ''Service'' name then Some RService
      else if ''Injectable'' \<in> set decos \<or> endsWithI ''Provider'' name then Some RProvider
      else None)"

section \<open>Identifiers\<close>

text \<open>\<open>name ?? "<anon>"\<close>\<close>

definition orAnon :: "string option \<Rightarrow> string" where
  "orAnon name = (case name of Some n \<Rightarrow> n | None \<Rightarrow> ''<anon>'')"

text \<open>\<open>String(txt ?? p.getText?.() ?? "")\<close>: the type text, else the parameter text.\<close>

definition typeText :: "ParameterDeclaration \<Rightarrow> string" where
  "typeText p = (case p_typeText p of Some t \<Rightarrow> t | None \<Rightarrow> p_text p)"

definition buildSignatureKey :: "Callable \<Rightarrow> string" where
  "buildSignatureKey decl =
     orAnon (c_getName decl) @ ''('' @ join '','' (map typeText (c_parameters decl)) @ '')''"

definition idFor :: "SourceFile \<Rightarrow> string \<Rightarrow> string option \<Rightarrow> string" where
  "idFor sf name signatureText =
     (let sig = (case signatureText of Some t \<Rightarrow> t | None \<Rightarrow> name)
      in sf_filePath sf @ ''#'' @ name @ ''::'' @ shortHash sig)"

definition fileKeyFor :: "string \<Rightarrow> string" where
  "fileKeyFor p = simplifyPath p @ ''#'' @ shortHash p"

text \<open>
  The name under which \<open>addCallable\<close> files a callable:
  \<open>className ? `${className}.${name ?? "<anon>"}` : name ?? "<anon>"\<close>.
\<close>

definition qualifiedName :: "string option \<Rightarrow> string option \<Rightarrow> string" where
  "qualifiedName className name =
     (case className of
        None \<Rightarrow> orAnon name
      | Some cn \<Rightarrow> if cn = [] then orAnon name else cn @ ''.'' @ orAnon name)"

section \<open>The call graph: \<open>analyzeDirectoryGraph\<close>\<close>

record CallableInfo =
  ci_id :: string
  ci_name :: string
  ci_filePath :: string
  ci_fileKey :: string
  ci_className :: "string option"
  ci_decl :: Callable
  ci_isAsync :: bool
  ci_kind :: syntax_kind
  ci_role :: "role option"

text \<open>The \<open>info\<close> object that \<open>addCallable\<close> builds.\<close>

definition callableInfo ::
  "SourceFile \<Rightarrow> Callable \<Rightarrow> string option \<Rightarrow> string option \<Rightarrow> role option \<Rightarrow> CallableInfo" where
  "callableInfo sf decl name className role =
     \<lparr> ci_id = idFor sf (qualifiedName className name) (Some (buildSignatureKey decl)),
       ci_name = orAnon name,
       ci_filePath = sf_filePath sf,
       ci_fileKey = fileKeyFor (sf_filePath sf),
       ci_className = className,
       ci_decl = decl,
       ci_isAsync = c_isAsync decl,
       ci_kind = c_kind decl,
       ci_role = role \<rparr>"

text \<open>
  The collector's state: the list \<open>callables\<close> and the map \<open>callablesByDecl\<close>, keyed by
  the identity of the declaration node.
\<close>

record Collected =
  callables :: "CallableInfo list"
  callablesByDecl :: "nat \<Rightarrow> CallableInfo option"

definition addCallable ::
  "SourceFile \<Rightarrow> Callable \<Rightarrow> string option \<Rightarrow> string option \<Rightarrow> role option
   \<Rightarrow> Collected \<Rightarrow> Collected" where
  "addCallable sf decl name className role st =
     (let info = callableInfo sf decl name className role
      in \<lparr> callables = callables st @ [info],
           callablesByDecl = (callablesByDecl st)(c_ident decl \<mapsto> info) \<rparr>)"

text \<open>\<open>fn.getName?.() || "<anon>"\<close>: an empty name counts as missing.\<close>

definition functionName :: "Callable \<Rightarrow> string" where
  "functionName fn =
     (case c_getName fn of None \<Rightarrow> ''<anon>'' | Some n \<Rightarrow> if n = [] then ''<anon>'' else n)"

definition addFunction :: "SourceFile \<Rightarrow> Collected \<Rightarrow> Callable \<Rightarrow> Collected" where
  "addFunction sf st fn = addCallable sf fn (Some (functionName fn)) None (Some RHelper) st"

definition addInitializer ::
  "SourceFile \<Rightarrow> string option \<Rightarrow> string option \<Rightarrow> role option \<Rightarrow> Initializer option
   \<Rightarrow> Collected \<Rightarrow> Collected" where
  "addInitializer sf name className role init st =
     (case init of
        Some (FunctionInit f) \<Rightarrow> addCallable sf f name className role st
      | _ \<Rightarrow> st)"

definition addClass :: "SourceFile \<Rightarrow> Collected \<Rightarrow> ClassDecl \<Rightarrow> Collected" where
  "addClass sf st cls =
     (let clsRole = getClassRole cls sf;
          clsName = cls_name cls;
          st1 = foldl (\<lambda>s m. addCallable sf m (c_getName m) clsName clsRole s) st (cls_methods cls)
      in foldl (\<lambda>s prop. addInitializer sf (prop_name prop) clsName clsRole
                            (prop_initializer prop) s) st1 (cls_properties cls))"

definition addVariable :: "SourceFile \<Rightarrow> Collected \<Rightarrow> VariableDeclaration \<Rightarrow> Collected" where
  "addVariable sf st v = addInitializer sf (v_name v) None (Some RHelper) (v_initializer v) st"

definition collectFile :: "SourceFile \<Rightarrow> Collected \<Rightarrow> Collected" where
  "collectFile sf st =
     foldl (addVariable sf)
       (foldl (addClass sf) (foldl (addFunction sf) st (sf_functions sf)) (sf_classes sf))
       (sf_variableDeclarations sf)"

text \<open>Step 1 of \<open>analyzeDirectoryGraph\<close>; a path without a source file is skipped.\<close>

definition collectCallables :: "Project \<Rightarrow> string list \<Rightarrow> Collected" where
  "collectCallables project filePaths =
     foldl (\<lambda>st filePath. case project filePath of None \<Rightarrow> st | Some sf \<Rightarrow> collectFile sf st)
       \<lparr> callables = [], callablesByDecl = Map.empty \<rparr> filePaths"

text \<open>Step 2: the symbol of a call, the callee among its declarations, the edge.\<close>

fun callSymbol :: "CallExpression \<Rightarrow> TsSymbol option" where
  "callSymbol (PropertyAccessCall nameSym) = nameSym"
| "callSymbol (ElementAccessCall prop exprSym) =
     (case prop of Some s \<Rightarrow> Some s | None \<Rightarrow> exprSym)"
| "callSymbol (OtherCall exprSym) = exprSym"
| "callSymbol NoExpression = None"

definition matchCallableFromDecl ::
  "(nat \<Rightarrow> CallableInfo option) \<Rightarrow> DeclNode \<Rightarrow> CallableInfo option" where
  "matchCallableFromDecl byDecl d =
     (if getKind d = MethodDeclaration then byDecl (ident d)
      else if getKind d = FunctionDeclaration then byDecl (ident d)
      else if getKind d = FunctionExpression \<or> getKind d = ArrowFunction then byDecl (ident d)
      else None)"

fun firstCallee :: "(nat \<Rightarrow> CallableInfo option) \<Rightarrow> DeclNode list \<Rightarrow> CallableInfo option" where
  "firstCallee byDecl [] = None"
| "firstCallee byDecl (d # ds) =
     (case matchCallableFromDecl byDecl d of
        Some m \<Rightarrow> Some m
      | None \<Rightarrow> firstCallee byDecl ds)"

definition callEdge ::
  "(nat \<Rightarrow> CallableInfo option) \<Rightarrow> CallableInfo \<Rightarrow> CallExpression \<Rightarrow> GraphEdge option" where
  "callEdge byDecl caller call =
     (case callSymbol call of
        None \<Rightarrow> None
      | Some symb \<Rightarrow>
          (case firstCallee byDecl (getDeclarations (unwrapAlias symb)) of
             None \<Rightarrow> None
           | Some calleeInfo \<Rightarrow>
               if ci_id caller \<noteq> ci_id calleeInfo
               then Some \<lparr> e_from = ci_id caller, e_to = ci_id calleeInfo,
                           e_crossFile = (simplifyPath (ci_filePath caller)
                                          \<noteq> simplifyPath (ci_filePath calleeInfo)) \<rparr>
               else None))"

definition callEdges :: "Collected \<Rightarrow> GraphEdge list" where
  "callEdges st =
     concat (map (\<lambda>caller. List.map_filter (callEdge (callablesByDecl st) caller)
                              (c_callExpressions (ci_decl caller)))
                 (callables st))"

text \<open>Step 3: one node per collected callable.\<close>

definition nodeOf :: "CallableInfo \<Rightarrow> GraphNode" where
  "nodeOf c =
     \<lparr> gn_id = ci_id c, gn_label = ci_name c, gn_kind = ci_kind c,
       gn_isAsync = Some (ci_isAsync c), gn_filePath = ci_filePath c,
       gn_fileKey = ci_fileKey c, gn_className = ci_className c, gn_role = ci_role c \<rparr>"

definition analyzeDirectoryGraph :: "Project \<Rightarrow> string list \<Rightarrow> Graph" where
  "analyzeDirectoryGraph project filePaths =
     (let st = collectCallables project filePaths
      in \<lparr> nodes = uniqueNodes (map nodeOf (callables st)),
           edges = uniqueEdges (callEdges st) \<rparr>)"

section \<open>The wiring graph: \<open>analyzeWiringGraph\<close>\<close>

record ModuleInfo =
  mi_id :: string
  mi_name :: string
  mi_filePath :: string
  mi_fileKey :: string
  mi_controllers :: "ClassRef list"
  mi_providers :: "ClassRef list"
  mi_importedModules :: "ClassRef list"

definition moduleKeyFor :: "string \<Rightarrow> string \<Rightarrow> string" where
  "moduleKeyFor filePath moduleName =
     moduleName @ '' ('' @ (simplifyPath filePath @ ''#'' @ shortHash filePath) @ '')''"

text \<open>\<open>/\.module\.(t|j)sx?$/.test(sf.getBaseName())\<close>\<close>

definition endsWith :: "string \<Rightarrow> string \<Rightarrow> bool" where
  "endsWith suf s \<longleftrightarrow> length suf \<le> length s \<and> drop (length s - length suf) s = suf"

definition fileNameIndicatesModule :: "string \<Rightarrow> bool" where
  "fileNameIndicatesModule baseName \<longleftrightarrow>
     endsWith ''.module.ts'' baseName \<or> endsWith ''.module.tsx'' baseName
     \<or> endsWith ''.module.js'' baseName \<or> endsWith ''.module.jsx'' baseName"

text \<open>
  \<open>pushIfClass\<close>: the class declarations among (or around) the declarations of the
  unwrapped symbol at an expression.
\<close>

definition classesOfSymbol :: "TsSymbol option \<Rightarrow> ClassRef list" where
  "classesOfSymbol s =
     (case s of
        None \<Rightarrow> []
      | Some symb \<Rightarrow> List.map_filter classOf (getDeclarations (unwrapAlias symb)))"

fun elementClasses :: "Element \<Rightarrow> ClassRef list" where
  "elementClasses SpreadElement = []"
| "elementClasses (ElementExpr s) = classesOfSymbol s"

fun collectClasses :: "Expression \<Rightarrow> ClassRef list" where
  "collectClasses (ArrayLiteralExpression els) = concat (map elementClasses els)"
| "collectClasses (OtherExpression s) = classesOfSymbol s"

text \<open>\<open>p.getName?.().replace(/['"]/g, "")\<close>\<close>

definition stripQuotes :: "string \<Rightarrow> string" where
  "stripQuotes s = filter (\<lambda>c. c \<noteq> CHR 0x27 \<and> c \<noteq> CHR 0x22) s"

fun readProperty :: "ModuleInfo \<Rightarrow> ObjectProperty \<Rightarrow> ModuleInfo" where
  "readProperty info OtherProperty = info"
| "readProperty info (PropertyAssignment name None) = info"
| "readProperty info (PropertyAssignment name (Some init)) =
     (let keyName = stripQuotes name in
      if keyName = ''imports''
      then info\<lparr> mi_importedModules := mi_importedModules info @ collectClasses init \<rparr>
      else if keyName = ''controllers''
      then info\<lparr> mi_controllers := mi_controllers info @ collectClasses init \<rparr>
      else if keyName = ''providers'' \<or> keyName = ''exports''
      then info\<lparr> mi_providers := mi_providers info @ collectClasses init \<rparr>
      else info)"

text \<open>\<open>cls.getName?.() || dflt\<close>\<close>

definition nameOr :: "string \<Rightarrow> string option \<Rightarrow> string" where
  "nameOr dflt name = (case name of None \<Rightarrow> dflt | Some n \<Rightarrow> if n = [] then dflt else n)"

definition hashedId :: "string \<Rightarrow> string \<Rightarrow> string" where
  "hashedId filePath name = filePath @ ''#'' @ name @ ''::'' @ shortHash name"

definition moduleInfoOf :: "SourceFile \<Rightarrow> ClassDecl \<Rightarrow> ModuleInfo" where
  "moduleInfoOf sf cls =
     (let moduleName = nameOr ''<Module>'' (cls_name cls);
          info = \<lparr> mi_id = hashedId (sf_filePath sf) moduleName,
                   mi_name = moduleName,
                   mi_filePath = sf_filePath sf,
                   mi_fileKey = moduleKeyFor (sf_filePath sf) moduleName,
                   mi_controllers = [], mi_providers = [], mi_importedModules = [] \<rparr>
      in case find (\<lambda>d. d_name d = ''Module'') (cls_decorators cls) of
           None \<Rightarrow> info
         | Some moduleDecorator \<Rightarrow>
             (case d_arg0 moduleDecorator of
                None \<Rightarrow> info
              | Some metaArg \<Rightarrow>
                  (case arg_objectLiteral metaArg of
                     None \<Rightarrow> info
                   | Some props \<Rightarrow> foldl readProperty info props)))"

definition moduleNodeOf :: "string \<Rightarrow> string \<Rightarrow> GraphNode" where
  "moduleNodeOf filePath moduleName =
     \<lparr> gn_id = hashedId filePath moduleName, gn_label = moduleName,
       gn_kind = ClassDeclaration, gn_isAsync = Some False, gn_filePath = filePath,
       gn_fileKey = moduleKeyFor filePath moduleName, gn_className = None,
       gn_role = Some RModule \<rparr>"

text \<open>The first loop: the module classes of the listed files, and their nodes in \<open>byId\<close>.\<close>

record Scanned =
  modules :: "ModuleInfo list"
  byId0 :: "string \<Rightarrow> GraphNode option"

definition isModuleClass :: "SourceFile \<Rightarrow> ClassDecl \<Rightarrow> bool" where
  "isModuleClass sf cls \<longleftrightarrow>
     find (\<lambda>d. d_name d = ''Module'') (cls_decorators cls) \<noteq> None
     \<or> fileNameIndicatesModule (sf_baseName sf)"

definition scanClass :: "SourceFile \<Rightarrow> Scanned \<Rightarrow> ClassDecl \<Rightarrow> Scanned" where
  "scanClass sf st cls =
     (if \<not> isModuleClass sf cls then st
      else let info = moduleInfoOf sf cls;
               moduleNode = moduleNodeOf (sf_filePath sf) (mi_name info)
           in \<lparr> modules = modules st @ [info],
                byId0 = (byId0 st)(gn_id moduleNode \<mapsto> moduleNode) \<rparr>)"

definition scanModules :: "Project \<Rightarrow> string list \<Rightarrow> Scanned" where
  "scanModules project filePaths =
     foldl (\<lambda>st filePath. case project filePath of
                             None \<Rightarrow> st
                           | Some sf \<Rightarrow> foldl (scanClass sf) st (sf_classes sf))
       \<lparr> modules = [], byId0 = Map.empty \<rparr> filePaths"

text \<open>The second loop works on \<open>nodes\<close>, \<open>edges\<close> and \<open>byId\<close>.\<close>

record Wiring =
  w_nodes :: "GraphNode list"
  w_edges :: "GraphEdge list"
  w_byId :: "string \<Rightarrow> GraphNode option"

definition classNodeId :: "ClassRef \<Rightarrow> string" where
  "classNodeId cls = hashedId (cr_filePath cls) (nameOr ''<Class>'' (cr_name cls))"

definition roleFor :: "ClassRef \<Rightarrow> role" where
  "roleFor cls =
     (if ''Controller'' \<in> set (cr_decorators cls) then RController
      else if ''Injectable'' \<in> set (cr_decorators cls) then RService
      else RProvider)"

definition pushEdge :: "GraphEdge \<Rightarrow> Wiring \<Rightarrow> Wiring" where
  "pushEdge e st = st\<lparr> w_edges := w_edges st @ [e] \<rparr>"

text \<open>The node that \<open>ensureNode\<close> creates for a class not yet in \<open>byId\<close>.\<close>

definition classNodeOf :: "ModuleInfo \<Rightarrow> string \<Rightarrow> ClassRef \<Rightarrow> GraphNode" where
  "classNodeOf m section cls =
     \<lparr> gn_id = classNodeId cls, gn_label = nameOr ''<Class>'' (cr_name cls),
       gn_kind = ClassDeclaration, gn_isAsync = None,
       gn_filePath = cr_filePath cls, gn_fileKey = mi_fileKey m,
       gn_className = Some section, gn_role = Some (roleFor cls) \<rparr>"

definition ensureNode :: "ModuleInfo \<Rightarrow> string \<Rightarrow> Wiring \<Rightarrow> ClassRef \<Rightarrow> Wiring" where
  "ensureNode m section st cls =
     (let cid = classNodeId cls;
          st1 = (case w_byId st cid of
                   None \<Rightarrow>
                     (let node = classNodeOf m section cls
                      in st\<lparr> w_byId := (w_byId st)(cid \<mapsto> node),
                              w_nodes := w_nodes st @ [node] \<rparr>)
                 | Some existing \<Rightarrow>
                     if find (\<lambda>n. gn_id n = cid) (w_nodes st) = None
                     then st\<lparr> w_nodes := w_nodes st @ [existing] \<rparr>
                     else st)
      in pushEdge \<lparr> e_from = mi_id m, e_to = cid,
                    e_crossFile = (simplifyPath (mi_filePath m)
                                   \<noteq> simplifyPath (cr_filePath cls)) \<rparr> st1)"

text \<open>The id under which an imported module is filed.\<close>

definition importTargetId :: "ClassRef \<Rightarrow> string" where
  "importTargetId im = hashedId (cr_filePath im) (nameOr ''<Module>'' (cr_name im))"

definition importModule :: "ModuleInfo \<Rightarrow> Wiring \<Rightarrow> ClassRef \<Rightarrow> Wiring" where
  "importModule m st im =
     (let modName = nameOr ''<Module>'' (cr_name im);
          targetId = importTargetId im;
          st1 = (case w_byId st targetId of
                   None \<Rightarrow>
                     (let modNode = moduleNodeOf (cr_filePath im) modName
                      in st\<lparr> w_byId := (w_byId st)(targetId \<mapsto> modNode),
                              w_nodes := w_nodes st @ [modNode] \<rparr>)
                 | Some existing \<Rightarrow> st)
      in pushEdge \<lparr> e_from = mi_id m, e_to = targetId,
                    e_crossFile = (simplifyPath (mi_filePath m)
                                   \<noteq> simplifyPath (cr_filePath im)) \<rparr> st1)"

text \<open>
  One round of the loop over \<open>modules\<close>.  \<open>byId.get(m.id)!\<close> is always present (the first
  loop stored it); the branch \<open>None\<close> stands for the impossible \<open>undefined\<close>.
\<close>

definition wireModule :: "Wiring \<Rightarrow> ModuleInfo \<Rightarrow> Wiring" where
  "wireModule st m =
     (let st0 = (case w_byId st (mi_id m) of
                   None \<Rightarrow> st
                 | Some moduleNode \<Rightarrow> st\<lparr> w_nodes := w_nodes st @ [moduleNode] \<rparr>);
          st1 = foldl (ensureNode m ''Controllers'') st0 (mi_controllers m);
          st2 = foldl (ensureNode m ''Providers'') st1 (mi_providers m)
      in foldl (importModule m) st2 (mi_importedModules m))"

definition wireModules :: "Scanned \<Rightarrow> Wiring" where
  "wireModules sc =
     foldl wireModule \<lparr> w_nodes = [], w_edges = [], w_byId = byId0 sc \<rparr> (modules sc)"

text \<open>
  The injection pass.  \<open>classDeclsById\<close> is a \<open>Map\<close> from node id to the class declaration
  found again in the project by file path and id.
\<close>

definition findClass :: "Project \<Rightarrow> GraphNode \<Rightarrow> ClassDecl option" where
  "findClass project n =
     (case project (gn_filePath n) of
        None \<Rightarrow> None
      | Some sf \<Rightarrow>
          find (\<lambda>c. hashedId (sf_filePath sf) (nameOr ''<Class>'' (cls_name c)) = gn_id n)
               (sf_classes sf))"

definition classDeclsById :: "Project \<Rightarrow> GraphNode list \<Rightarrow> (string \<times> ClassDecl) list" where
  "classDeclsById project ns =
     foldl (\<lambda>m n.
              if (gn_role n = Some RController \<or> gn_role n = Some RService
                  \<or> gn_role n = Some RProvider) \<and> gn_kind n = ClassDeclaration
              then (case findClass project n of
                      None \<Rightarrow> m
                    | Some cls \<Rightarrow> AList.update (gn_id n) cls m)
              else m)
       [] ns"

text \<open>The first class among (or around) the declarations of a symbol.\<close>

definition firstClass :: "TsSymbol option \<Rightarrow> ClassRef option" where
  "firstClass s = (case classesOfSymbol s of [] \<Rightarrow> None | cd # _ \<Rightarrow> Some cd)"

definition injectTarget :: "ParameterDeclaration \<Rightarrow> ClassRef option" where
  "injectTarget p =
     (case find (\<lambda>d. d_name d = ''Inject'') (p_decorators p) of
        None \<Rightarrow> None
      | Some injDeco \<Rightarrow>
          (case d_arg0 injDeco of
             None \<Rightarrow> None
           | Some arg \<Rightarrow> firstClass (arg_symbol arg)))"

definition targetClass :: "ParameterDeclaration \<Rightarrow> ClassRef option" where
  "targetClass p =
     (case injectTarget p of
        Some cd \<Rightarrow> Some cd
      | None \<Rightarrow> firstClass (p_typeSymbol p))"

definition injectionEdge ::
  "(string \<Rightarrow> GraphNode option) \<Rightarrow> string \<Rightarrow> ParameterDeclaration \<Rightarrow> GraphEdge option" where
  "injectionEdge byId fromId p =
     (case targetClass p of
        None \<Rightarrow> None
      | Some targetCls \<Rightarrow>
          (case byId (classNodeId targetCls) of
             None \<Rightarrow> None
           | Some toNode \<Rightarrow>
               (case byId fromId of
                  None \<Rightarrow> None
                | Some fromNode \<Rightarrow>
                    Some \<lparr> e_from = gn_id fromNode, e_to = gn_id toNode,
                           e_crossFile = (simplifyPath (gn_filePath fromNode)
                                          \<noteq> simplifyPath (gn_filePath toNode)) \<rparr>)))"

text \<open>
  \<open>cls.getConstructors?.()?.[0]\<close>: \<open>cls_constructors\<close> is the list that \<open>getConstructors()\<close>
  returns; the pass reads its first element, if any, and nothing else of the list.
\<close>

definition injectionEdgesOf ::
  "(string \<Rightarrow> GraphNode option) \<Rightarrow> string \<times> ClassDecl \<Rightarrow> GraphEdge list" where
  "injectionEdgesOf byId entry =
     (case cls_constructors (snd entry) of
        [] \<Rightarrow> []
      | ctor # _ \<Rightarrow> List.map_filter (injectionEdge byId (fst entry)) (ctor_parameters ctor))"

definition injectionEdges :: "Project \<Rightarrow> Wiring \<Rightarrow> GraphEdge list" where
  "injectionEdges project st =
     concat (map (injectionEdgesOf (w_byId st)) (classDeclsById project (w_nodes st)))"

definition analyzeWiringGraph :: "Project \<Rightarrow> string list \<Rightarrow> Graph" where
  "analyzeWiringGraph project filePaths =
     (let st = wireModules (scanModules project filePaths)
      in \<lparr> nodes = uniqueNodes (w_nodes st),
           edges = uniqueEdges (w_edges st @ injectionEdges project st) \<rparr>)"

section \<open>Module enumeration: \<open>analyzeDirectoryModules\<close>\<close>

definition hasModuleDecorator :: "ClassDecl \<Rightarrow> bool" where
  "hasModuleDecorator cls \<longleftrightarrow> list_ex (\<lambda>d. d_name d = ''Module'') (cls_decorators cls)"

definition moduleNodes :: "SourceFile \<Rightarrow> GraphNode list" where
  "moduleNodes sf =
     map (\<lambda>cls. let name = nameOr ''<Module>'' (cls_name cls)
                in \<lparr> gn_id = sf_filePath sf @ ''#'' @ name, gn_label = name,
                     gn_kind = ClassDeclaration, gn_isAsync = Some False,
                     gn_filePath = sf_filePath sf, gn_fileKey = simplifyPath (sf_filePath sf),
                     gn_className = None, gn_role = Some RModule \<rparr>)
         (filter (\<lambda>cls. hasModuleDecorator cls \<or> fileNameIndicatesModule (sf_baseName sf))
                 (sf_classes sf))"

definition analyzeDirectoryModules :: "Project \<Rightarrow> string list \<Rightarrow> Graph" where
  "analyzeDirectoryModules project filePaths =
     \<lparr> nodes = uniqueNodes (concat (map (\<lambda>filePath. case project filePath of
                                                        None \<Rightarrow> []
                                                      | Some sf \<Rightarrow> moduleNodes sf) filePaths)),
       edges = [] \<rparr>"

section \<open>What the claims speak about\<close>

text \<open>
  Edge-endpoint closure: both ids of every edge are ids of nodes of the graph.
\<close>

definition edgesClosed :: "Graph \<Rightarrow> bool" where
  "edgesClosed g \<longleftrightarrow>
     list_all (\<lambda>e. e_from e \<in> gn_id ` set (nodes g) \<and> e_to e \<in> gn_id ` set (nodes g)) (edges g)"

text \<open>
  The cross-file flag of every edge, compared with the file paths of the two nodes that
  the graph holds under the ids of the edge.  An edge without such nodes counts as wrong.
\<close>

definition crossFileCorrect :: "Graph \<Rightarrow> bool" where
  "crossFileCorrect g \<longleftrightarrow>
     list_all (\<lambda>e. case (find (\<lambda>n. gn_id n = e_from e) (nodes g),
                          find (\<lambda>n. gn_id n = e_to e) (nodes g)) of
                     (Some a, Some b) \<Rightarrow>
                        e_crossFile e = (simplifyPath (gn_filePath a) \<noteq> simplifyPath (gn_filePath b))
                   | _ \<Rightarrow> False)
              (edges g)"

text \<open>
  The ids handed out in a run, each with the file path of the declaration it was made
  for: the collected callables of the call graph; the modules, the classes they list and
  the modules they import of the wiring graph.  \<open>singleValued\<close> says that an id determines
  the path.
\<close>

definition singleValued :: "('a \<times> 'b) list \<Rightarrow> bool" where
  "singleValued ps \<longleftrightarrow> list_all (\<lambda>x. list_all (\<lambda>y. fst x = fst y \<longrightarrow> snd x = snd y) ps) ps"

definition callableIdPaths :: "Project \<Rightarrow> string list \<Rightarrow> (string \<times> string) list" where
  "callableIdPaths project filePaths =
     map (\<lambda>c. (ci_id c, ci_filePath c)) (callables (collectCallables project filePaths))"

definition moduleIdPaths :: "ModuleInfo \<Rightarrow> (string \<times> string) list" where
  "moduleIdPaths m =
     (mi_id m, mi_filePath m)
     # map (\<lambda>c. (classNodeId c, cr_filePath c)) (mi_controllers m @ mi_providers m)
     @ map (\<lambda>im. (importTargetId im, cr_filePath im)) (mi_importedModules m)"

definition wiringIdPaths :: "Scanned \<Rightarrow> (string \<times> string) list" where
  "wiringIdPaths sc = concat (map moduleIdPaths (modules sc))"

text \<open>
  Every id starts with the file path and the separator \<open>#\<close>; \<open>hashFreePaths\<close> says that
  no file path holds the separator.
\<close>

definition idsExtendPaths :: "(string \<times> string) list \<Rightarrow> bool" where
  "idsExtendPaths ps \<longleftrightarrow> list_all (\<lambda>ip. take (length (snd ip) + 1) (fst ip) = snd ip @ ''#'') ps"

definition hashFreePaths :: "(string \<times> string) list \<Rightarrow> bool" where
  "hashFreePaths ps \<longleftrightarrow> list_all (\<lambda>ip. CHR ''#'' \<notin> set (snd ip)) ps"

text \<open>
  The ids under which the wiring pass files module nodes: the module classes found in the
  listed files and the targets of their \<open>imports\<close> entries.
\<close>

definition registeredModuleIds :: "Scanned \<Rightarrow> string list" where
  "registeredModuleIds sc =
     concat (map (\<lambda>m. mi_id m # map importTargetId (mi_importedModules m)) (modules sc))"





text \<open>
  The four rules of \<open>getClassRole\<close>, one per line of the source.  The provider line also
  tests the decorator \<open>Injectable\<close>, but the service line above it has already returned
  for every class that carries it.
\<close>

definition className :: "ClassDecl \<Rightarrow> string" where
  "className cls = (case cls_name cls of Some n \<Rightarrow> n | None \<Rightarrow> [])"

definition moduleRule :: "ClassDecl \<Rightarrow> SourceFile \<Rightarrow> bool" where
  "moduleRule cls sf \<longleftrightarrow>
     ''Module'' \<in> set (decoratorNames cls) \<or> endsWithI ''Module'' (className cls)
     \<or> containsI ''.module.'' (sf_baseName sf)"

definition controllerRule :: "ClassDecl \<Rightarrow> bool" where
  "controllerRule cls \<longleftrightarrow>
     ''Controller'' \<in> set (decoratorNames cls) \<or> endsWithI ''Controller'' (className cls)"

definition serviceRule :: "ClassDecl \<Rightarrow> bool" where
  "serviceRule cls \<longleftrightarrow>
     ''Injectable'' \<in> set (decoratorNames cls) \<or> endsWithI ''Service'' (className cls)"

definition providerRule :: "ClassDecl \<Rightarrow> bool" where
  "providerRule cls \<longleftrightarrow> endsWithI ''Provider'' (className cls)"

text \<open>
  The role as the specification words it: the decorator decides first (\<open>Module\<close>,
  \<open>Controller\<close>, \<open>Injectable\<close> with the name telling service from provider), then the
  name suffix, then the file name.
\<close>

definition specClassRole :: "ClassDecl \<Rightarrow> SourceFile \<Rightarrow> role option" where
  "specClassRole cls sf =
     (let name = className cls; decos = decoratorNames cls in
      if ''Module'' \<in> set decos then Some RModule
      else if ''Controller'' \<in> set decos then Some RController
      else if ''Injectable'' \<in> set decos
           then (if endsWithI ''Provider'' name then Some RProvider else Some RService)
      else if endsWithI ''Module'' name then Some RModule
      else if endsWithI ''Controller'' name then Some RController
      else if endsWithI ''Service'' name then Some RService
      else if endsWithI ''Provider'' name then Some RProvider
      else if containsI ''.module.'' (sf_baseName sf) then Some RModule
      else None)"

text \<open>
  The empty graph; the listed paths that have a source file in the project.
\<close>

definition emptyGraph :: Graph where
  "emptyGraph = \<lparr> nodes = [], edges = [] \<rparr>"

definition present :: "Project \<Rightarrow> string list \<Rightarrow> string list" where
  "present project filePaths = filter (\<lambda>p. project p \<noteq> None) filePaths"





text \<open>
  The ordered pair of an edge, and de-duplication of edges as the specification words it:
  one edge per ordered pair \<open>(from, to)\<close>, the last one written.  \<open>keysTellPairs es\<close>:
  edges of \<open>es\<close> with the same key \<open>from|to\<close> have the same pair.  \<open>barFree es\<close>: no
  source id of \<open>es\<close> holds the character \<open>|\<close>.
\<close>

definition edgePair :: "GraphEdge \<Rightarrow> string \<times> string" where
  "edgePair e = (e_from e, e_to e)"

definition uniqueEdgesByPair :: "GraphEdge list \<Rightarrow> GraphEdge list" where
  "uniqueEdgesByPair es = map snd (mapFromEntries (map (\<lambda>e. (edgePair e, e)) es))"

definition keysTellPairs :: "GraphEdge list \<Rightarrow> bool" where
  "keysTellPairs es \<longleftrightarrow>
     list_all (\<lambda>x. list_all (\<lambda>y. edgeKey x = edgeKey y \<longrightarrow> edgePair x = edgePair y) es) es"

definition barFree :: "GraphEdge list \<Rightarrow> bool" where
  "barFree es \<longleftrightarrow> list_all (\<lambda>e. CHR ''|'' \<notin> set (e_from e)) es"

subsection \<open>Node identities\<close>

text \<open>
  Two parses of the same file texts give the same trees with other node objects.
  \<open>renameProject r\<close> replaces the identity \<open>i\<close> of every declaration node of the project,
  also in the answers of the checker, by \<open>r i\<close>.
\<close>

fun renameDecl :: "(nat \<Rightarrow> nat) \<Rightarrow> DeclNode \<Rightarrow> DeclNode" where
  "renameDecl r (DeclNode k i c) = DeclNode k (r i) c"

primrec renameSymbol :: "(nat \<Rightarrow> nat) \<Rightarrow> TsSymbol \<Rightarrow> TsSymbol" where
  "renameSymbol r (TsSymbol a ds) =
     TsSymbol (map_option (renameSymbol r) a) (map (renameDecl r) ds)"

fun renameCall :: "(nat \<Rightarrow> nat) \<Rightarrow> CallExpression \<Rightarrow> CallExpression" where
  "renameCall r (PropertyAccessCall s) = PropertyAccessCall (map_option (renameSymbol r) s)"
| "renameCall r (ElementAccessCall p s) =
     ElementAccessCall (map_option (renameSymbol r) p) (map_option (renameSymbol r) s)"
| "renameCall r (OtherCall s) = OtherCall (map_option (renameSymbol r) s)"
| "renameCall r NoExpression = NoExpression"

fun renameElement :: "(nat \<Rightarrow> nat) \<Rightarrow> Element \<Rightarrow> Element" where
  "renameElement r SpreadElement = SpreadElement"
| "renameElement r (ElementExpr s) = ElementExpr (map_option (renameSymbol r) s)"

fun renameExpression :: "(nat \<Rightarrow> nat) \<Rightarrow> Expression \<Rightarrow> Expression" where
  "renameExpression r (ArrayLiteralExpression els) =
     ArrayLiteralExpression (map (renameElement r) els)"
| "renameExpression r (OtherExpression s) = OtherExpression (map_option (renameSymbol r) s)"

fun renameProperty :: "(nat \<Rightarrow> nat) \<Rightarrow> ObjectProperty \<Rightarrow> ObjectProperty" where
  "renameProperty r (PropertyAssignment n e) =
     PropertyAssignment n (map_option (renameExpression r) e)"
| "renameProperty r OtherProperty = OtherProperty"

fun renameArg :: "(nat \<Rightarrow> nat) \<Rightarrow> DecoratorArg \<Rightarrow> DecoratorArg" where
  "renameArg r (DecoratorArg s props) =
     DecoratorArg (map_option (renameSymbol r) s) (map_option (map (renameProperty r)) props)"

definition renameDecorator :: "(nat \<Rightarrow> nat) \<Rightarrow> Decorator \<Rightarrow> Decorator" where
  "renameDecorator r d = d\<lparr> d_arg0 := map_option (renameArg r) (d_arg0 d) \<rparr>"

definition renameParameter :: "(nat \<Rightarrow> nat) \<Rightarrow> ParameterDeclaration \<Rightarrow> ParameterDeclaration" where
  "renameParameter r p =
     p\<lparr> p_decorators := map (renameDecorator r) (p_decorators p),
        p_typeSymbol := map_option (renameSymbol r) (p_typeSymbol p) \<rparr>"

definition renameCallable :: "(nat \<Rightarrow> nat) \<Rightarrow> Callable \<Rightarrow> Callable" where
  "renameCallable r c =
     c\<lparr> c_ident := r (c_ident c),
        c_parameters := map (renameParameter r) (c_parameters c),
        c_callExpressions := map (renameCall r) (c_callExpressions c) \<rparr>"

fun renameInitializer :: "(nat \<Rightarrow> nat) \<Rightarrow> Initializer \<Rightarrow> Initializer" where
  "renameInitializer r (FunctionInit f) = FunctionInit (renameCallable r f)"
| "renameInitializer r OtherInit = OtherInit"

definition renameClass :: "(nat \<Rightarrow> nat) \<Rightarrow> ClassDecl \<Rightarrow> ClassDecl" where
  "renameClass r cls =
     cls\<lparr> cls_decorators := map (renameDecorator r) (cls_decorators cls),
          cls_methods := map (renameCallable r) (cls_methods cls),
          cls_properties :=
            map (\<lambda>p. p\<lparr> prop_initializer := map_option (renameInitializer r) (prop_initializer p) \<rparr>)
                (cls_properties cls),
          cls_constructors :=
            map (\<lambda>c. c\<lparr> ctor_parameters := map (renameParameter r) (ctor_parameters c) \<rparr>)
                (cls_constructors cls) \<rparr>"

definition renameFile :: "(nat \<Rightarrow> nat) \<Rightarrow> SourceFile \<Rightarrow> SourceFile" where
  "renameFile r sf =
     sf\<lparr> sf_functions := map (renameCallable r) (sf_functions sf),
         sf_classes := map (renameClass r) (sf_classes sf),
         sf_variableDeclarations :=
           map (\<lambda>v. v\<lparr> v_initializer := map_option (renameInitializer r) (v_initializer v) \<rparr>)
               (sf_variableDeclarations sf) \<rparr>"

definition renameProject :: "(nat \<Rightarrow> nat) \<Rightarrow> Project \<Rightarrow> Project" where
  "renameProject r project = (\<lambda>p. map_option (renameFile r) (project p))"

section \<open>Invariants of the loops\<close>

text \<open>
  The collector: every value of \<open>callablesByDecl\<close> is in \<open>callables\<close>.  Two collector states
  are \<open>renamed\<close> when they differ by a renaming of node identities only.
\<close>

definition collectedOk :: "Collected \<Rightarrow> bool" where
  "collectedOk st \<longleftrightarrow> ran (callablesByDecl st) \<subseteq> set (callables st)"

definition renameInfo :: "(nat \<Rightarrow> nat) \<Rightarrow> CallableInfo \<Rightarrow> CallableInfo" where
  "renameInfo r info = info\<lparr> ci_decl := renameCallable r (ci_decl info) \<rparr>"

definition renamed :: "(nat \<Rightarrow> nat) \<Rightarrow> Collected \<Rightarrow> Collected \<Rightarrow> bool" where
  "renamed r st st' \<longleftrightarrow>
     callables st' = map (renameInfo r) (callables st)
     \<and> (\<forall>i. callablesByDecl st' (r i) = map_option (renameInfo r) (callablesByDecl st i))"

text \<open>
  Ids of collected callables and of modules found start with the file path and \<open>#\<close>.
\<close>

definition idsOk :: "Collected \<Rightarrow> bool" where
  "idsOk st \<longleftrightarrow>
     (\<forall>c \<in> set (callables st). take (length (ci_filePath c) + 1) (ci_id c) = ci_filePath c @ ''#'')"

definition moduleIdsOk :: "Scanned \<Rightarrow> bool" where
  "moduleIdsOk sc \<longleftrightarrow>
     (\<forall>m \<in> set (modules sc). take (length (mi_filePath m) + 1) (mi_id m) = mi_filePath m @ ''#'')"

text \<open>
  The first loop of the wiring pass: \<open>byId\<close> holds, under the id of every module found, a
  node of role module with the file path of a module of that id.
\<close>

definition scannedOk :: "Scanned \<Rightarrow> bool" where
  "scannedOk sc \<longleftrightarrow>
     (\<forall>i n. byId0 sc i = Some n \<longrightarrow>
        gn_id n = i \<and> gn_role n = Some RModule
        \<and> (\<exists>m \<in> set (modules sc). mi_id m = i \<and> mi_filePath m = gn_filePath n))
     \<and> (\<forall>m \<in> set (modules sc). \<exists>n. byId0 sc (mi_id m) = Some n)"

text \<open>
  The second loop: the pushed nodes are the entries of \<open>byId\<close> under their ids; every
  entry is filed under its own id, with an id and path handed out in this run, and under
  a registered id if it is a module; both ends of every edge are in \<open>byId\<close> and the flag
  compares two paths handed out with these ids; every module found is in \<open>byId\<close> as a
  module.  \<open>domCov S\<close>: every key of \<open>byId\<close> is the id of a pushed node or in \<open>S\<close> (the
  modules still to come).  \<open>rolesOk\<close>: every entry has one of the four class roles.
\<close>

definition wiringInv :: "Scanned \<Rightarrow> Wiring \<Rightarrow> bool" where
  "wiringInv sc st \<longleftrightarrow>
     (\<forall>n \<in> set (w_nodes st). w_byId st (gn_id n) = Some n)
     \<and> (\<forall>i n. w_byId st i = Some n \<longrightarrow>
            gn_id n = i \<and> (i, gn_filePath n) \<in> set (wiringIdPaths sc)
            \<and> (gn_role n = Some RModule \<longrightarrow> i \<in> set (registeredModuleIds sc)))
     \<and> (\<forall>e \<in> set (w_edges st).
            e_from e \<in> dom (w_byId st) \<and> e_to e \<in> dom (w_byId st)
            \<and> (\<exists>p q. (e_from e, p) \<in> set (wiringIdPaths sc) \<and> (e_to e, q) \<in> set (wiringIdPaths sc)
                   \<and> e_crossFile e = (simplifyPath p \<noteq> simplifyPath q)))
     \<and> (\<forall>m \<in> set (modules sc). \<exists>n. w_byId st (mi_id m) = Some n \<and> gn_role n = Some RModule)"

definition domCov :: "string set \<Rightarrow> Wiring \<Rightarrow> bool" where
  "domCov S st \<longleftrightarrow> dom (w_byId st) \<subseteq> gn_id ` set (w_nodes st) \<union> S"


section \<open>Example programs\<close>

text \<open>
  Builders for the examples: callables without parameters, a call that resolves to one
  declaration, a class reference as the checker returns it, decorators, a typed parameter.
\<close>

definition mkFunction :: "nat \<Rightarrow> string \<Rightarrow> CallExpression list \<Rightarrow> Callable" where
  "mkFunction i name calls =
     \<lparr> c_ident = i, c_kind = FunctionDeclaration, c_getName = Some name, c_isAsync = False,
       c_parameters = [], c_callExpressions = calls \<rparr>"

definition mkMethod :: "nat \<Rightarrow> string \<Rightarrow> CallExpression list \<Rightarrow> Callable" where
  "mkMethod i name calls =
     \<lparr> c_ident = i, c_kind = MethodDeclaration, c_getName = Some name, c_isAsync = False,
       c_parameters = [], c_callExpressions = calls \<rparr>"

definition mkArrow :: "nat \<Rightarrow> CallExpression list \<Rightarrow> Callable" where
  "mkArrow i calls =
     \<lparr> c_ident = i, c_kind = ArrowFunction, c_getName = None, c_isAsync = False,
       c_parameters = [], c_callExpressions = calls \<rparr>"

definition callTo :: "syntax_kind \<Rightarrow> nat \<Rightarrow> CallExpression" where
  "callTo k i = OtherCall (Some (TsSymbol None [DeclNode k i None]))"

definition plainClass :: "string option \<Rightarrow> Callable list \<Rightarrow> ClassDecl" where
  "plainClass name methods =
     \<lparr> cls_name = name, cls_decorators = [], cls_methods = methods, cls_properties = [],
       cls_constructors = [] \<rparr>"

definition classRef :: "string \<Rightarrow> string \<Rightarrow> string list \<Rightarrow> ClassRef" where
  "classRef path name decos = \<lparr> cr_filePath = path, cr_name = Some name, cr_decorators = decos \<rparr>"

definition classSymbol :: "nat \<Rightarrow> ClassRef \<Rightarrow> TsSymbol option" where
  "classSymbol i c = Some (TsSymbol None [DeclNode ClassDeclaration i (Some c)])"

definition plainDecorator :: "string \<Rightarrow> Decorator" where
  "plainDecorator name = \<lparr> d_name = name, d_arg0 = None \<rparr>"

definition moduleDecorator :: "ObjectProperty list \<Rightarrow> Decorator" where
  "moduleDecorator props = \<lparr> d_name = ''Module'', d_arg0 = Some (DecoratorArg None (Some props)) \<rparr>"

definition typedParam :: "string \<Rightarrow> TsSymbol option \<Rightarrow> ParameterDeclaration" where
  "typedParam ty s = \<lparr> p_typeText = Some ty, p_text = ty, p_decorators = [], p_typeSymbol = s \<rparr>"

text \<open>
  \<open>a.ts\<close> declares \<open>util\<close>; \<open>b.ts\<close> declares \<open>run\<close>, which calls it.
\<close>

definition twoFiles :: Project where
  "twoFiles =
     [''/src/a.ts'' \<mapsto> \<lparr> sf_filePath = ''/src/a.ts'', sf_baseName = ''a.ts'',
          sf_functions = [mkFunction 1 ''util'' []], sf_classes = [], sf_variableDeclarations = [] \<rparr>,
      ''/src/b.ts'' \<mapsto> \<lparr> sf_filePath = ''/src/b.ts'', sf_baseName = ''b.ts'',
          sf_functions = [mkFunction 2 ''run'' [callTo FunctionDeclaration 1]], sf_classes = [],
          sf_variableDeclarations = [] \<rparr>]"

definition twoFilesPaths :: "string list" where
  "twoFilesPaths = [''/src/a.ts'', ''/src/b.ts'']"

text \<open>
  \<open>AppModule\<close> lists \<open>UserController\<close> under \<open>controllers\<close> and \<open>UserService\<close> under
  \<open>providers\<close>; the constructor of the controller takes a \<open>UserService\<close>.
  \<open>appModuleInfo\<close> is what the first loop records for the module.
\<close>

definition userService :: ClassRef where
  "userService = classRef ''/src/user.service.ts'' ''UserService'' [''Injectable'']"

definition userController :: ClassRef where
  "userController = classRef ''/src/user.controller.ts'' ''UserController'' [''Controller'']"

definition nestApp :: Project where
  "nestApp =
     [''/src/app.module.ts'' \<mapsto> \<lparr> sf_filePath = ''/src/app.module.ts'', sf_baseName = ''app.module.ts'',
          sf_functions = [],
          sf_classes = [\<lparr> cls_name = Some ''AppModule'',
             cls_decorators = [moduleDecorator
               [PropertyAssignment ''controllers''
                  (Some (ArrayLiteralExpression [ElementExpr (classSymbol 11 userController)])),
                PropertyAssignment ''providers''
                  (Some (ArrayLiteralExpression [ElementExpr (classSymbol 12 userService)]))]],
             cls_methods = [], cls_properties = [], cls_constructors = [] \<rparr>],
          sf_variableDeclarations = [] \<rparr>,
      ''/src/user.controller.ts'' \<mapsto> \<lparr> sf_filePath = ''/src/user.controller.ts'',
          sf_baseName = ''user.controller.ts'', sf_functions = [],
          sf_classes = [\<lparr> cls_name = Some ''UserController'',
             cls_decorators = [plainDecorator ''Controller''],
             cls_methods = [], cls_properties = [],
             cls_constructors = [\<lparr> ctor_parameters =
                [typedParam ''UserService'' (classSymbol 12 userService)] \<rparr>] \<rparr>],
          sf_variableDeclarations = [] \<rparr>,
      ''/src/user.service.ts'' \<mapsto> \<lparr> sf_filePath = ''/src/user.service.ts'',
          sf_baseName = ''user.service.ts'', sf_functions = [],
          sf_classes = [\<lparr> cls_name = Some ''UserService'',
             cls_decorators = [plainDecorator ''Injectable''],
             cls_methods = [], cls_properties = [], cls_constructors = [] \<rparr>],
          sf_variableDeclarations = [] \<rparr>]"

definition nestAppPaths :: "string list" where
  "nestAppPaths = [''/src/app.module.ts'', ''/src/user.controller.ts'', ''/src/user.service.ts'']"


text \<open>
  \<open>/src/a.ts\<close>: \<open>function helper() {}\<close> and
  \<open>class C { #m = () => { helper(); } }\<close>.  \<open>/src/a.ts#C.\<close>: \<open>const m = () => {}\<close>.
\<close>

definition collidingFiles :: Project where
  "collidingFiles =
     [''/src/a.ts'' \<mapsto> \<lparr> sf_filePath = ''/src/a.ts'', sf_baseName = ''a.ts'',
          sf_functions = [mkFunction 1 ''helper'' []],
          sf_classes = [\<lparr> cls_name = Some ''C'', cls_decorators = [], cls_methods = [],
             cls_properties = [\<lparr> prop_name = Some ''#m'',
                prop_initializer = Some (FunctionInit (mkArrow 2 [callTo FunctionDeclaration 1])) \<rparr>],
             cls_constructors = [] \<rparr>],
          sf_variableDeclarations = [] \<rparr>,
      ''/src/a.ts#C.'' \<mapsto> \<lparr> sf_filePath = ''/src/a.ts#C.'', sf_baseName = ''a.ts#C.'',
          sf_functions = [], sf_classes = [],
          sf_variableDeclarations =
            [\<lparr> v_name = Some ''m'', v_initializer = Some (FunctionInit (mkArrow 3 [])) \<rparr>] \<rparr>]"

definition collidingPaths :: "string list" where
  "collidingPaths = [''/src/a.ts'', ''/src/a.ts#C.'']"

text \<open>
  \<open>@Module({ imports: [AppModule], providers: [NodeService] }) class AppModule\<close> and
  \<open>@Injectable() class NodeService { constructor(parent: NodeService) {} }\<close>.
\<close>

definition nodeService :: ClassRef where
  "nodeService = classRef ''/src/node.service.ts'' ''NodeService'' [''Injectable'']"

definition appModule :: ClassRef where
  "appModule = classRef ''/src/app.module.ts'' ''AppModule'' [''Module'']"

definition selfWired :: Project where
  "selfWired =
     [''/src/app.module.ts'' \<mapsto> \<lparr> sf_filePath = ''/src/app.module.ts'', sf_baseName = ''app.module.ts'',
          sf_functions = [],
          sf_classes = [\<lparr> cls_name = Some ''AppModule'',
             cls_decorators = [moduleDecorator
               [PropertyAssignment ''imports''
                  (Some (ArrayLiteralExpression [ElementExpr (classSymbol 20 appModule)])),
                PropertyAssignment ''providers''
                  (Some (ArrayLiteralExpression [ElementExpr (classSymbol 21 nodeService)]))]],
             cls_methods = [], cls_properties = [], cls_constructors = [] \<rparr>],
          sf_variableDeclarations = [] \<rparr>,
      ''/src/node.service.ts'' \<mapsto> \<lparr> sf_filePath = ''/src/node.service.ts'',
          sf_baseName = ''node.service.ts'', sf_functions = [],
          sf_classes = [\<lparr> cls_name = Some ''NodeService'',
             cls_decorators = [plainDecorator ''Injectable''],
             cls_methods = [], cls_properties = [],
             cls_constructors = [\<lparr> ctor_parameters =
                [typedParam ''NodeService'' (classSymbol 21 nodeService)] \<rparr>] \<rparr>],
          sf_variableDeclarations = [] \<rparr>]"

definition selfWiredPaths :: "string list" where
  "selfWiredPaths = [''/src/app.module.ts'', ''/src/node.service.ts'']"

text \<open>
  \<open>class Factory { static create() {} create() {} }\<close>
\<close>

definition staticAndInstance :: Project where
  "staticAndInstance =
     [''/src/factory.ts'' \<mapsto> \<lparr> sf_filePath = ''/src/factory.ts'', sf_baseName = ''factory.ts'',
          sf_functions = [],
          sf_classes = [plainClass (Some ''Factory'') [mkMethod 1 ''create'' [], mkMethod 2 ''create'' []]],
          sf_variableDeclarations = [] \<rparr>]"

text \<open>
  \<open>@Injectable() class UsersService\<close>, declared in \<open>users.module.ts\<close>.
\<close>

definition usersServiceClass :: ClassDecl where
  "usersServiceClass =
     \<lparr> cls_name = Some ''UsersService'', cls_decorators = [plainDecorator ''Injectable''],
       cls_methods = [], cls_properties = [], cls_constructors = [] \<rparr>"

definition usersModuleFile :: SourceFile where
  "usersModuleFile =
     \<lparr> sf_filePath = ''/src/users/users.module.ts'', sf_baseName = ''users.module.ts'',
       sf_functions = [], sf_classes = [usersServiceClass], sf_variableDeclarations = [] \<rparr>"

text \<open>
  \<open>@Injectable() class CacheController\<close>, declared in \<open>cache.ts\<close>.
\<close>

definition cacheControllerClass :: ClassDecl where
  "cacheControllerClass =
     \<lparr> cls_name = Some ''CacheController'', cls_decorators = [plainDecorator ''Injectable''],
       cls_methods = [], cls_properties = [], cls_constructors = [] \<rparr>"

definition cacheFile :: SourceFile where
  "cacheFile =
     \<lparr> sf_filePath = ''/src/cache.ts'', sf_baseName = ''cache.ts'',
       sf_functions = [], sf_classes = [cacheControllerClass], sf_variableDeclarations = [] \<rparr>"






text \<open>
  Two raw edges with different pairs and the same key \<open>a|b|c\<close>; and the raw edges of
  three call sites, two of them from \<open>run\<close> to \<open>util\<close>.
\<close>

definition barEdges :: "GraphEdge list" where
  "barEdges = [\<lparr> e_from = ''a|b'', e_to = ''c'', e_crossFile = False \<rparr>,
               \<lparr> e_from = ''a'', e_to = ''b|c'', e_crossFile = True \<rparr>]"

definition callSites :: "GraphEdge list" where
  "callSites = [\<lparr> e_from = ''/src/b.ts#run'', e_to = ''/src/a.ts#util'', e_crossFile = False \<rparr>,
                \<lparr> e_from = ''/src/a.ts#util'', e_to = ''/src/b.ts#run'', e_crossFile = True \<rparr>,
                \<lparr> e_from = ''/src/b.ts#run'', e_to = ''/src/a.ts#util'', e_crossFile = True \<rparr>]"







section \<open>Properties of de-duplication\<close>

lemma foldl_update_distinct:
  "distinct (map fst m) \<Longrightarrow>
   distinct (map fst (foldl (\<lambda>m kv. AList.update (fst kv) (snd kv) m) m es))"
  by (induction es arbitrary: m) (simp_all add: distinct_update)

lemma mapFromEntries_distinct: "distinct (map fst (mapFromEntries es))"
  unfolding mapFromEntries_def by (rule foldl_update_distinct) simp

lemma foldl_update_map_of:
  "map_of (foldl (\<lambda>m kv. AList.update (fst kv) (snd kv) m) m es) = map_of m ++ map_of (rev es)"
proof (induction es arbitrary: m)
  case Nil
  show ?case by simp
next
  case (Cons kv es)
  have "map_of (AList.update (fst kv) (snd kv) m) ++ map_of (rev es)
        = map_of m ++ ([fst kv \<mapsto> snd kv] ++ map_of (rev es))"
  proof (rule ext)
    fix k
    show "(map_of (AList.update (fst kv) (snd kv) m) ++ map_of (rev es)) k
          = (map_of m ++ ([fst kv \<mapsto> snd kv] ++ map_of (rev es))) k"
      by (simp add: map_add_def update_conv' split: option.splits)
  qed
  then show ?case using Cons.IH [of "AList.update (fst kv) (snd kv) m"]
    by simp
qed

lemma mapFromEntries_map_of: "map_of (mapFromEntries es) = map_of (rev es)"
  unfolding mapFromEntries_def by (simp add: foldl_update_map_of)

lemma foldl_update_keys:
  "fst ` set (foldl (\<lambda>m kv. AList.update (fst kv) (snd kv) m) m es) = fst ` set m \<union> fst ` set es"
  by (induction es arbitrary: m) (auto simp: dom_update)

lemma mapFromEntries_keys: "fst ` set (mapFromEntries es) = fst ` set es"
  unfolding mapFromEntries_def by (simp add: foldl_update_keys)

lemma update_fresh: "k \<notin> fst ` set m \<Longrightarrow> AList.update k v m = m @ [(k, v)]"
  by (induction m) auto

lemma foldl_update_fresh:
  "distinct (map fst es) \<Longrightarrow> fst ` set m \<inter> fst ` set es = {} \<Longrightarrow>
   foldl (\<lambda>m kv. AList.update (fst kv) (snd kv) m) m es = m @ es"
proof (induction es arbitrary: m)
  case Nil
  show ?case by simp
next
  case (Cons kv es)
  have fresh: "fst kv \<notin> fst ` set m" using Cons.prems(2) by auto
  have step: "AList.update (fst kv) (snd kv) m = m @ [kv]"
    using update_fresh [OF fresh, of "snd kv"] by simp
  have "fst ` set (m @ [kv]) \<inter> fst ` set es = {}"
    using Cons.prems by auto
  moreover have "distinct (map fst es)" using Cons.prems(1) by simp
  ultimately show ?case using Cons.IH [of "m @ [kv]"] step by simp
qed

lemma mapFromEntries_id: "distinct (map fst es) \<Longrightarrow> mapFromEntries es = es"
  unfolding mapFromEntries_def using foldl_update_fresh [of es "[]"] by simp

lemma mapFromEntries_entry:
  assumes "(k, v) \<in> set (mapFromEntries (map (\<lambda>x. (key x, x)) xs))"
  shows "k = key v \<and> v \<in> set xs"
proof -
  have "map_of (mapFromEntries (map (\<lambda>x. (key x, x)) xs)) k = Some v"
    by (rule map_of_is_SomeI [OF mapFromEntries_distinct assms])
  then have "map_of (rev (map (\<lambda>x. (key x, x)) xs)) k = Some v"
    by (simp add: mapFromEntries_map_of)
  then have "(k, v) \<in> set (rev (map (\<lambda>x. (key x, x)) xs))"
    by (rule map_of_SomeD)
  then show ?thesis by auto
qed

lemma entries_collapse:
  "map (\<lambda>x. (key x, x)) (map snd (mapFromEntries (map (\<lambda>x. (key x, x)) xs)))
   = mapFromEntries (map (\<lambda>x. (key x, x)) xs)"
proof -
  let ?m = "mapFromEntries (map (\<lambda>x. (key x, x)) xs)"
  have "(key (snd kv), snd kv) = kv" if "kv \<in> set ?m" for kv
    using mapFromEntries_entry [of "fst kv" "snd kv" key xs] that by (cases kv) simp
  then show ?thesis by (simp add: map_idI)
qed

lemma dedup_keys:
  "map key (map snd (mapFromEntries (map (\<lambda>x. (key x, x)) xs)))
   = map fst (mapFromEntries (map (\<lambda>x. (key x, x)) xs))"
proof -
  let ?m = "mapFromEntries (map (\<lambda>x. (key x, x)) xs)"
  have "map fst (map (\<lambda>x. (key x, x)) (map snd ?m)) = map fst ?m"
    by (simp only: entries_collapse)
  then show ?thesis by (simp add: comp_def)
qed

lemma dedup_idem:
  "map snd (mapFromEntries (map (\<lambda>x. (key x, x))
      (map snd (mapFromEntries (map (\<lambda>x. (key x, x)) xs)))))
   = map snd (mapFromEntries (map (\<lambda>x. (key x, x)) xs))"
  by (simp only: entries_collapse mapFromEntries_id [OF mapFromEntries_distinct])

lemma dedup_keys_distinct:
  "distinct (map key (map snd (mapFromEntries (map (\<lambda>x. (key x, x)) xs))))"
  by (simp only: dedup_keys mapFromEntries_distinct)

lemma dedup_set_keys:
  "key ` set (map snd (mapFromEntries (map (\<lambda>x. (key x, x)) xs))) = key ` set xs"
proof -
  let ?m = "mapFromEntries (map (\<lambda>x. (key x, x)) xs)"
  have "key ` set (map snd ?m) = set (map key (map snd ?m))" by (simp only: set_map)
  also have "\<dots> = fst ` set ?m" by (simp only: dedup_keys set_map)
  also have "\<dots> = fst ` set (map (\<lambda>x. (key x, x)) xs)" by (rule mapFromEntries_keys)
  also have "\<dots> = key ` set xs" by (simp add: image_image)
  finally show ?thesis .
qed

lemma dedup_subset:
  "set (map snd (mapFromEntries (map (\<lambda>x. (key x, x)) xs))) \<subseteq> set xs"
  using mapFromEntries_entry [of _ _ key xs] by auto

lemma find_map_of:
  "find (\<lambda>x. key x = k) ys = map_of (map (\<lambda>x. (key x, x)) ys) k"
  by (induction ys) auto

lemma dedup_last_write:
  "find (\<lambda>x. key x = k) (map snd (mapFromEntries (map (\<lambda>x. (key x, x)) xs)))
   = find (\<lambda>x. key x = k) (rev xs)"
proof -
  let ?m = "mapFromEntries (map (\<lambda>x. (key x, x)) xs)"
  have "find (\<lambda>x. key x = k) (map snd ?m) = map_of ?m k"
    by (simp only: find_map_of [of key k "map snd ?m"] entries_collapse)
  also have "\<dots> = map_of (rev (map (\<lambda>x. (key x, x)) xs)) k"
    by (simp add: mapFromEntries_map_of)
  also have "\<dots> = find (\<lambda>x. key x = k) (rev xs)"
    by (simp only: find_map_of [of key k "rev xs"] rev_map)
  finally show ?thesis .
qed

lemma distinct_map_pair:
  "distinct (map (\<lambda>x. g (f x)) xs) \<Longrightarrow> distinct (map f xs)"
  by (induction xs) auto

section \<open>The call graph\<close>

text \<open>
  A property that holds before a loop and is kept by every round holds after it.
\<close>

lemma foldl_invariant:
  "P s \<Longrightarrow> (\<And>s x. x \<in> set xs \<Longrightarrow> P s \<Longrightarrow> P (f s x)) \<Longrightarrow> P (foldl f s xs)"
  by (induction xs arbitrary: s) simp_all

lemma set_map_filter: "set (List.map_filter f xs) = {y. \<exists>x \<in> set xs. f x = Some y}"
  by (induction xs) (auto split: option.splits)

lemma addCallable_ok: "collectedOk st \<Longrightarrow> collectedOk (addCallable sf decl name cn r st)"
  unfolding collectedOk_def addCallable_def Let_def
  by (auto simp: ran_def)

lemma addInitializer_ok: "collectedOk st \<Longrightarrow> collectedOk (addInitializer sf name cn r init st)"
  unfolding addInitializer_def
  by (auto simp: addCallable_ok split: option.splits Initializer.splits)

lemma addClass_ok: "collectedOk st \<Longrightarrow> collectedOk (addClass sf st cls)"
  unfolding addClass_def Let_def
  by (rule foldl_invariant [where P = collectedOk], rule foldl_invariant [where P = collectedOk])
     (simp_all add: addCallable_ok addInitializer_ok)

lemma collectFile_ok: "collectedOk st \<Longrightarrow> collectedOk (collectFile sf st)"
  unfolding collectFile_def
  by (rule foldl_invariant [where P = collectedOk], rule foldl_invariant [where P = collectedOk],
      rule foldl_invariant [where P = collectedOk])
     (simp_all add: addVariable_def addFunction_def addCallable_ok addInitializer_ok addClass_ok)

lemma collectCallables_ok: "collectedOk (collectCallables project filePaths)"
  unfolding collectCallables_def
proof (rule foldl_invariant [where P = collectedOk])
  show "collectedOk \<lparr>callables = [], callablesByDecl = Map.empty\<rparr>"
    by (simp add: collectedOk_def)
next
  fix s x assume "collectedOk s"
  then show "collectedOk (case project x of None \<Rightarrow> s | Some sf \<Rightarrow> collectFile sf s)"
    by (simp add: collectFile_ok split: option.splits)
qed

lemma firstCallee_ran: "firstCallee byDecl ds = Some m \<Longrightarrow> m \<in> ran byDecl"
  by (induction ds) (auto simp: matchCallableFromDecl_def ran_def split: option.splits if_splits)

lemma callEdge_Some:
  assumes "callEdge byDecl caller call = Some e"
  shows "\<exists>callee \<in> ran byDecl. e_from e = ci_id caller \<and> e_to e = ci_id callee
           \<and> ci_id caller \<noteq> ci_id callee
           \<and> e_crossFile e = (simplifyPath (ci_filePath caller) \<noteq> simplifyPath (ci_filePath callee))"
  using assms unfolding callEdge_def
  by (auto split: option.splits if_splits dest!: firstCallee_ran)

lemma callEdges_origin:
  assumes "e \<in> set (callEdges st)"
  shows "\<exists>caller \<in> set (callables st). \<exists>callee \<in> ran (callablesByDecl st).
           e_from e = ci_id caller \<and> e_to e = ci_id callee \<and> ci_id caller \<noteq> ci_id callee
           \<and> e_crossFile e = (simplifyPath (ci_filePath caller) \<noteq> simplifyPath (ci_filePath callee))"
proof -
  from assms obtain caller call where c: "caller \<in> set (callables st)"
    and e: "callEdge (callablesByDecl st) caller call = Some e"
    unfolding callEdges_def by (auto simp: set_map_filter)
  from callEdge_Some [OF e] c show ?thesis by blast
qed

section \<open>The wiring graph\<close>

subsection \<open>What \<open>ensureNode\<close> and the import step do to the state\<close>

lemma ensureNode_edges:
  "w_edges (ensureNode m sec st c) = w_edges st @
     [\<lparr> e_from = mi_id m, e_to = classNodeId c,
        e_crossFile = (simplifyPath (mi_filePath m) \<noteq> simplifyPath (cr_filePath c)) \<rparr>]"
  by (cases "w_byId st (classNodeId c)") (simp_all add: ensureNode_def pushEdge_def Let_def)

lemma ensureNode_byId:
  "w_byId (ensureNode m sec st c) =
     (case w_byId st (classNodeId c) of
        None \<Rightarrow> (w_byId st)(classNodeId c \<mapsto> classNodeOf m sec c)
      | Some ex \<Rightarrow> w_byId st)"
  by (cases "w_byId st (classNodeId c)") (simp_all add: ensureNode_def pushEdge_def Let_def)

lemma ensureNode_nodes:
  "w_nodes (ensureNode m sec st c) = w_nodes st @
     (case w_byId st (classNodeId c) of
        None \<Rightarrow> [classNodeOf m sec c]
      | Some ex \<Rightarrow> if find (\<lambda>n. gn_id n = classNodeId c) (w_nodes st) = None then [ex] else [])"
  by (cases "w_byId st (classNodeId c)") (simp_all add: ensureNode_def pushEdge_def Let_def)

lemma importModule_edges:
  "w_edges (importModule m st im) = w_edges st @
     [\<lparr> e_from = mi_id m, e_to = importTargetId im,
        e_crossFile = (simplifyPath (mi_filePath m) \<noteq> simplifyPath (cr_filePath im)) \<rparr>]"
  by (cases "w_byId st (importTargetId im)") (simp_all add: importModule_def pushEdge_def Let_def)

lemma importModule_byId:
  "w_byId (importModule m st im) =
     (case w_byId st (importTargetId im) of
        None \<Rightarrow> (w_byId st)(importTargetId im \<mapsto>
                   moduleNodeOf (cr_filePath im) (nameOr ''<Module>'' (cr_name im)))
      | Some ex \<Rightarrow> w_byId st)"
  by (cases "w_byId st (importTargetId im)") (simp_all add: importModule_def pushEdge_def Let_def)

lemma importModule_nodes:
  "w_nodes (importModule m st im) = w_nodes st @
     (case w_byId st (importTargetId im) of
        None \<Rightarrow> [moduleNodeOf (cr_filePath im) (nameOr ''<Module>'' (cr_name im))]
      | Some ex \<Rightarrow> [])"
  by (cases "w_byId st (importTargetId im)") (simp_all add: importModule_def pushEdge_def Let_def)

lemma moduleNodeOf_id [simp]: "gn_id (moduleNodeOf p n) = hashedId p n"
  by (simp add: moduleNodeOf_def)

lemma classNodeOf_id [simp]: "gn_id (classNodeOf m sec c) = classNodeId c"
  by (simp add: classNodeOf_def)

lemma Wiring_eqI:
  "w_nodes a = w_nodes b \<Longrightarrow> w_edges a = w_edges b \<Longrightarrow> w_byId a = w_byId b \<Longrightarrow> (a::Wiring) = b"
  by simp

subsection \<open>The invariant of the module loop\<close>

lemma wiringInv_nodesD:
  "wiringInv sc st \<Longrightarrow> n \<in> set (w_nodes st) \<Longrightarrow> w_byId st (gn_id n) = Some n"
  by (simp add: wiringInv_def)

lemma wiringInv_byIdD:
  "wiringInv sc st \<Longrightarrow> w_byId st i = Some n \<Longrightarrow>
     gn_id n = i \<and> (i, gn_filePath n) \<in> set (wiringIdPaths sc)
     \<and> (gn_role n = Some RModule \<longrightarrow> i \<in> set (registeredModuleIds sc))"
  by (simp add: wiringInv_def)

lemma wiringInv_edgesD:
  "wiringInv sc st \<Longrightarrow> e \<in> set (w_edges st) \<Longrightarrow>
     e_from e \<in> dom (w_byId st) \<and> e_to e \<in> dom (w_byId st)
     \<and> (\<exists>p q. (e_from e, p) \<in> set (wiringIdPaths sc) \<and> (e_to e, q) \<in> set (wiringIdPaths sc)
            \<and> e_crossFile e = (simplifyPath p \<noteq> simplifyPath q))"
  by (simp add: wiringInv_def)

lemma wiringInv_modulesD:
  "wiringInv sc st \<Longrightarrow> m \<in> set (modules sc) \<Longrightarrow>
     \<exists>n. w_byId st (mi_id m) = Some n \<and> gn_role n = Some RModule"
  by (simp add: wiringInv_def)

lemma wiringInvI:
  assumes "\<And>n. n \<in> set (w_nodes st) \<Longrightarrow> w_byId st (gn_id n) = Some n"
    and "\<And>i n. w_byId st i = Some n \<Longrightarrow>
           gn_id n = i \<and> (i, gn_filePath n) \<in> set (wiringIdPaths sc)
           \<and> (gn_role n = Some RModule \<longrightarrow> i \<in> set (registeredModuleIds sc))"
    and "\<And>e. e \<in> set (w_edges st) \<Longrightarrow>
           e_from e \<in> dom (w_byId st) \<and> e_to e \<in> dom (w_byId st)
           \<and> (\<exists>p q. (e_from e, p) \<in> set (wiringIdPaths sc) \<and> (e_to e, q) \<in> set (wiringIdPaths sc)
                  \<and> e_crossFile e = (simplifyPath p \<noteq> simplifyPath q))"
    and "\<And>m. m \<in> set (modules sc) \<Longrightarrow> \<exists>n. w_byId st (mi_id m) = Some n \<and> gn_role n = Some RModule"
  shows "wiringInv sc st"
  unfolding wiringInv_def using assms by blast

lemma wiringInv_fresh:
  assumes ok: "wiringInv sc st" and m: "f \<in> dom (w_byId st)" and fresh: "w_byId st i = None"
    and n: "gn_id n = i" and np: "(i, gn_filePath n) \<in> set (wiringIdPaths sc)"
    and nr: "gn_role n = Some RModule \<longrightarrow> i \<in> set (registeredModuleIds sc)"
    and fp: "(f, p) \<in> set (wiringIdPaths sc)" and iq: "(i, q) \<in> set (wiringIdPaths sc)"
  shows "wiringInv sc \<lparr> w_nodes = w_nodes st @ [n],
           w_edges = w_edges st @ [\<lparr>e_from = f, e_to = i, e_crossFile = (simplifyPath p \<noteq> simplifyPath q)\<rparr>],
           w_byId = (w_byId st)(i \<mapsto> n) \<rparr>"
proof (rule wiringInvI)
  fix k assume "k \<in> set (w_nodes \<lparr> w_nodes = w_nodes st @ [n],
           w_edges = w_edges st @ [\<lparr>e_from = f, e_to = i, e_crossFile = (simplifyPath p \<noteq> simplifyPath q)\<rparr>],
           w_byId = (w_byId st)(i \<mapsto> n) \<rparr>)"
  then consider "k \<in> set (w_nodes st)" | "k = n" by auto
  then have "((w_byId st)(i \<mapsto> n)) (gn_id k) = Some k"
  proof cases
    case 1
    then have "w_byId st (gn_id k) = Some k" using wiringInv_nodesD [OF ok] by simp
    moreover from this fresh have "gn_id k \<noteq> i" by auto
    ultimately show ?thesis by simp
  next
    case 2
    then show ?thesis using n by simp
  qed
  then show "w_byId \<lparr> w_nodes = w_nodes st @ [n],
           w_edges = w_edges st @ [\<lparr>e_from = f, e_to = i, e_crossFile = (simplifyPath p \<noteq> simplifyPath q)\<rparr>],
           w_byId = (w_byId st)(i \<mapsto> n) \<rparr> (gn_id k) = Some k" by simp
next
  fix j k assume "w_byId \<lparr> w_nodes = w_nodes st @ [n],
           w_edges = w_edges st @ [\<lparr>e_from = f, e_to = i, e_crossFile = (simplifyPath p \<noteq> simplifyPath q)\<rparr>],
           w_byId = (w_byId st)(i \<mapsto> n) \<rparr> j = Some k"
  then have "((w_byId st)(i \<mapsto> n)) j = Some k" by simp
  then consider "j = i" "k = n" | "w_byId st j = Some k" by (cases "j = i") auto
  then show "gn_id k = j \<and> (j, gn_filePath k) \<in> set (wiringIdPaths sc)
           \<and> (gn_role k = Some RModule \<longrightarrow> j \<in> set (registeredModuleIds sc))"
  proof cases
    case 1
    then show ?thesis using n np nr by simp
  next
    case 2
    then show ?thesis using wiringInv_byIdD [OF ok] by blast
  qed
next
  fix e assume "e \<in> set (w_edges \<lparr> w_nodes = w_nodes st @ [n],
           w_edges = w_edges st @ [\<lparr>e_from = f, e_to = i, e_crossFile = (simplifyPath p \<noteq> simplifyPath q)\<rparr>],
           w_byId = (w_byId st)(i \<mapsto> n) \<rparr>)"
  then consider "e \<in> set (w_edges st)"
    | "e = \<lparr>e_from = f, e_to = i, e_crossFile = (simplifyPath p \<noteq> simplifyPath q)\<rparr>" by auto
  then have "e_from e \<in> dom ((w_byId st)(i \<mapsto> n)) \<and> e_to e \<in> dom ((w_byId st)(i \<mapsto> n))
            \<and> (\<exists>p q. (e_from e, p) \<in> set (wiringIdPaths sc) \<and> (e_to e, q) \<in> set (wiringIdPaths sc)
                   \<and> e_crossFile e = (simplifyPath p \<noteq> simplifyPath q))"
  proof cases
    case 1
    from wiringInv_edgesD [OF ok 1] show ?thesis by auto
  next
    case 2
    have "\<exists>p' q'. (f, p') \<in> set (wiringIdPaths sc) \<and> (i, q') \<in> set (wiringIdPaths sc)
            \<and> (simplifyPath p \<noteq> simplifyPath q) = (simplifyPath p' \<noteq> simplifyPath q')"
      using fp iq by blast
    then show ?thesis using m 2 by simp
  qed
  then show "e_from e \<in> dom (w_byId \<lparr> w_nodes = w_nodes st @ [n],
           w_edges = w_edges st @ [\<lparr>e_from = f, e_to = i, e_crossFile = (simplifyPath p \<noteq> simplifyPath q)\<rparr>],
           w_byId = (w_byId st)(i \<mapsto> n) \<rparr>) \<and> e_to e \<in> dom (w_byId \<lparr> w_nodes = w_nodes st @ [n],
           w_edges = w_edges st @ [\<lparr>e_from = f, e_to = i, e_crossFile = (simplifyPath p \<noteq> simplifyPath q)\<rparr>],
           w_byId = (w_byId st)(i \<mapsto> n) \<rparr>)
            \<and> (\<exists>p q. (e_from e, p) \<in> set (wiringIdPaths sc) \<and> (e_to e, q) \<in> set (wiringIdPaths sc)
                   \<and> e_crossFile e = (simplifyPath p \<noteq> simplifyPath q))" by simp
next
  fix mm assume "mm \<in> set (modules sc)"
  from wiringInv_modulesD [OF ok this] obtain k where k: "w_byId st (mi_id mm) = Some k" "gn_role k = Some RModule"
    by blast
  then have "mi_id mm \<noteq> i" using fresh by auto
  then have "((w_byId st)(i \<mapsto> n)) (mi_id mm) = Some k" using k by simp
  then show "\<exists>n'. w_byId \<lparr> w_nodes = w_nodes st @ [n],
           w_edges = w_edges st @ [\<lparr>e_from = f, e_to = i, e_crossFile = (simplifyPath p \<noteq> simplifyPath q)\<rparr>],
           w_byId = (w_byId st)(i \<mapsto> n) \<rparr> (mi_id mm) = Some n' \<and> gn_role n' = Some RModule"
    using k by simp
qed

lemma wiringInv_edge:
  assumes ok: "wiringInv sc st" and m: "f \<in> dom (w_byId st)" and known: "i \<in> dom (w_byId st)"
    and fp: "(f, p) \<in> set (wiringIdPaths sc)" and iq: "(i, q) \<in> set (wiringIdPaths sc)"
  shows "wiringInv sc (st\<lparr> w_edges := w_edges st @
            [\<lparr>e_from = f, e_to = i, e_crossFile = (simplifyPath p \<noteq> simplifyPath q)\<rparr>] \<rparr>)"
proof (rule wiringInvI)
  fix k assume "k \<in> set (w_nodes (st\<lparr> w_edges := w_edges st @
            [\<lparr>e_from = f, e_to = i, e_crossFile = (simplifyPath p \<noteq> simplifyPath q)\<rparr>] \<rparr>))"
  then show "w_byId (st\<lparr> w_edges := w_edges st @
            [\<lparr>e_from = f, e_to = i, e_crossFile = (simplifyPath p \<noteq> simplifyPath q)\<rparr>] \<rparr>) (gn_id k) = Some k"
    using wiringInv_nodesD [OF ok] by simp
next
  fix j k assume "w_byId (st\<lparr> w_edges := w_edges st @
            [\<lparr>e_from = f, e_to = i, e_crossFile = (simplifyPath p \<noteq> simplifyPath q)\<rparr>] \<rparr>) j = Some k"
  then have "w_byId st j = Some k" by simp
  then show "gn_id k = j \<and> (j, gn_filePath k) \<in> set (wiringIdPaths sc)
           \<and> (gn_role k = Some RModule \<longrightarrow> j \<in> set (registeredModuleIds sc))"
    by (rule wiringInv_byIdD [OF ok])
next
  fix e assume "e \<in> set (w_edges (st\<lparr> w_edges := w_edges st @
            [\<lparr>e_from = f, e_to = i, e_crossFile = (simplifyPath p \<noteq> simplifyPath q)\<rparr>] \<rparr>))"
  then consider "e \<in> set (w_edges st)"
    | "e = \<lparr>e_from = f, e_to = i, e_crossFile = (simplifyPath p \<noteq> simplifyPath q)\<rparr>" by auto
  then have "e_from e \<in> dom (w_byId st) \<and> e_to e \<in> dom (w_byId st)
            \<and> (\<exists>p q. (e_from e, p) \<in> set (wiringIdPaths sc) \<and> (e_to e, q) \<in> set (wiringIdPaths sc)
                   \<and> e_crossFile e = (simplifyPath p \<noteq> simplifyPath q))"
  proof cases
    case 1
    from wiringInv_edgesD [OF ok 1] show ?thesis .
  next
    case 2
    have "\<exists>p' q'. (f, p') \<in> set (wiringIdPaths sc) \<and> (i, q') \<in> set (wiringIdPaths sc)
            \<and> (simplifyPath p \<noteq> simplifyPath q) = (simplifyPath p' \<noteq> simplifyPath q')"
      using fp iq by blast
    then show ?thesis using m known 2 by simp
  qed
  then show "e_from e \<in> dom (w_byId (st\<lparr> w_edges := w_edges st @
            [\<lparr>e_from = f, e_to = i, e_crossFile = (simplifyPath p \<noteq> simplifyPath q)\<rparr>] \<rparr>))
          \<and> e_to e \<in> dom (w_byId (st\<lparr> w_edges := w_edges st @
            [\<lparr>e_from = f, e_to = i, e_crossFile = (simplifyPath p \<noteq> simplifyPath q)\<rparr>] \<rparr>))
            \<and> (\<exists>p q. (e_from e, p) \<in> set (wiringIdPaths sc) \<and> (e_to e, q) \<in> set (wiringIdPaths sc)
                   \<and> e_crossFile e = (simplifyPath p \<noteq> simplifyPath q))" by simp
next
  fix mm assume "mm \<in> set (modules sc)"
  from wiringInv_modulesD [OF ok this]
  show "\<exists>n'. w_byId (st\<lparr> w_edges := w_edges st @
            [\<lparr>e_from = f, e_to = i, e_crossFile = (simplifyPath p \<noteq> simplifyPath q)\<rparr>] \<rparr>) (mi_id mm) = Some n'
          \<and> gn_role n' = Some RModule" by simp
qed

lemma wiringInv_push:
  assumes ok: "wiringInv sc st" and known: "w_byId st i = Some n"
  shows "wiringInv sc (st\<lparr> w_nodes := w_nodes st @ [n] \<rparr>)"
proof (rule wiringInvI)
  have ni: "gn_id n = i" using wiringInv_byIdD [OF ok known] by simp
  fix k assume "k \<in> set (w_nodes (st\<lparr> w_nodes := w_nodes st @ [n] \<rparr>))"
  then consider "k \<in> set (w_nodes st)" | "k = n" by auto
  then have "w_byId st (gn_id k) = Some k"
  proof cases
    case 1 then show ?thesis by (rule wiringInv_nodesD [OF ok])
  next
    case 2 then show ?thesis using ni known by simp
  qed
  then show "w_byId (st\<lparr> w_nodes := w_nodes st @ [n] \<rparr>) (gn_id k) = Some k" by simp
next
  fix j k assume "w_byId (st\<lparr> w_nodes := w_nodes st @ [n] \<rparr>) j = Some k"
  then have "w_byId st j = Some k" by simp
  then show "gn_id k = j \<and> (j, gn_filePath k) \<in> set (wiringIdPaths sc)
           \<and> (gn_role k = Some RModule \<longrightarrow> j \<in> set (registeredModuleIds sc))"
    by (rule wiringInv_byIdD [OF ok])
next
  fix e assume "e \<in> set (w_edges (st\<lparr> w_nodes := w_nodes st @ [n] \<rparr>))"
  then have "e \<in> set (w_edges st)" by simp
  from wiringInv_edgesD [OF ok this]
  show "e_from e \<in> dom (w_byId (st\<lparr> w_nodes := w_nodes st @ [n] \<rparr>))
          \<and> e_to e \<in> dom (w_byId (st\<lparr> w_nodes := w_nodes st @ [n] \<rparr>))
            \<and> (\<exists>p q. (e_from e, p) \<in> set (wiringIdPaths sc) \<and> (e_to e, q) \<in> set (wiringIdPaths sc)
                   \<and> e_crossFile e = (simplifyPath p \<noteq> simplifyPath q))" by simp
next
  fix mm assume "mm \<in> set (modules sc)"
  from wiringInv_modulesD [OF ok this]
  show "\<exists>n'. w_byId (st\<lparr> w_nodes := w_nodes st @ [n] \<rparr>) (mi_id mm) = Some n' \<and> gn_role n' = Some RModule"
    by simp
qed

subsection \<open>Every round keeps the invariant\<close>

lemma idPaths_module:
  "m \<in> set (modules sc) \<Longrightarrow> (mi_id m, mi_filePath m) \<in> set (wiringIdPaths sc)"
  by (auto simp: wiringIdPaths_def moduleIdPaths_def)

lemma idPaths_class:
  "m \<in> set (modules sc) \<Longrightarrow> c \<in> set (mi_controllers m) \<union> set (mi_providers m) \<Longrightarrow>
   (classNodeId c, cr_filePath c) \<in> set (wiringIdPaths sc)"
  unfolding wiringIdPaths_def moduleIdPaths_def
  by (simp, rule bexI [of _ m]) auto

lemma idPaths_import:
  "m \<in> set (modules sc) \<Longrightarrow> im \<in> set (mi_importedModules m) \<Longrightarrow>
   (importTargetId im, cr_filePath im) \<in> set (wiringIdPaths sc)"
  unfolding wiringIdPaths_def moduleIdPaths_def
  by (simp, rule bexI [of _ m]) auto

lemma registered_module: "m \<in> set (modules sc) \<Longrightarrow> mi_id m \<in> set (registeredModuleIds sc)"
  by (auto simp: registeredModuleIds_def)

lemma registered_import:
  "m \<in> set (modules sc) \<Longrightarrow> im \<in> set (mi_importedModules m) \<Longrightarrow>
   importTargetId im \<in> set (registeredModuleIds sc)"
  unfolding registeredModuleIds_def
  by (simp, rule bexI [of _ m]) auto

lemma roleFor_not_module: "roleFor c \<noteq> RModule"
  by (simp add: roleFor_def)

lemma ensureNode_inv:
  assumes ok: "wiringInv sc st" and m: "m \<in> set (modules sc)"
    and c: "c \<in> set (mi_controllers m) \<union> set (mi_providers m)"
  shows "wiringInv sc (ensureNode m sec st c)"
proof -
  have f: "mi_id m \<in> dom (w_byId st)" using wiringInv_modulesD [OF ok m] by auto
  note fp = idPaths_module [OF m]
  note iq = idPaths_class [OF m c]
  show ?thesis
  proof (cases "w_byId st (classNodeId c)")
    case None
    have eq: "ensureNode m sec st c = \<lparr> w_nodes = w_nodes st @ [classNodeOf m sec c],
          w_edges = w_edges st @ [\<lparr>e_from = mi_id m, e_to = classNodeId c,
             e_crossFile = (simplifyPath (mi_filePath m) \<noteq> simplifyPath (cr_filePath c))\<rparr>],
          w_byId = (w_byId st)(classNodeId c \<mapsto> classNodeOf m sec c) \<rparr>"
      by (rule Wiring_eqI) (simp_all add: ensureNode_nodes ensureNode_edges ensureNode_byId None)
    have a1: "gn_id (classNodeOf m sec c) = classNodeId c" by simp
    have a2: "(classNodeId c, gn_filePath (classNodeOf m sec c)) \<in> set (wiringIdPaths sc)"
      using iq by (simp add: classNodeOf_def)
    have a3: "gn_role (classNodeOf m sec c) = Some RModule \<longrightarrow>
                classNodeId c \<in> set (registeredModuleIds sc)"
      by (simp add: classNodeOf_def roleFor_not_module)
    show ?thesis
      unfolding eq by (rule wiringInv_fresh [OF ok f None a1 a2 a3 fp iq])
  next
    case (Some ex)
    have known: "classNodeId c \<in> dom (w_byId st)" using Some by auto
    show ?thesis
    proof (cases "find (\<lambda>n. gn_id n = classNodeId c) (w_nodes st) = None")
      case True
      let ?st1 = "st\<lparr> w_nodes := w_nodes st @ [ex] \<rparr>"
      have eq: "ensureNode m sec st c = ?st1\<lparr> w_edges := w_edges ?st1 @
           [\<lparr>e_from = mi_id m, e_to = classNodeId c,
             e_crossFile = (simplifyPath (mi_filePath m) \<noteq> simplifyPath (cr_filePath c))\<rparr>] \<rparr>"
        by (rule Wiring_eqI) (simp_all add: ensureNode_nodes ensureNode_edges ensureNode_byId Some True)
      have ok1: "wiringInv sc ?st1" by (rule wiringInv_push [OF ok Some])
      show ?thesis unfolding eq
        by (rule wiringInv_edge [OF ok1 _ _ fp iq]) (use f known in simp_all)
    next
      case False
      have eq: "ensureNode m sec st c = st\<lparr> w_edges := w_edges st @
           [\<lparr>e_from = mi_id m, e_to = classNodeId c,
             e_crossFile = (simplifyPath (mi_filePath m) \<noteq> simplifyPath (cr_filePath c))\<rparr>] \<rparr>"
        by (rule Wiring_eqI) (simp_all add: ensureNode_nodes ensureNode_edges ensureNode_byId Some False)
      show ?thesis unfolding eq
        by (rule wiringInv_edge [OF ok f known fp iq])
    qed
  qed
qed

lemma importModule_inv:
  assumes ok: "wiringInv sc st" and m: "m \<in> set (modules sc)"
    and im: "im \<in> set (mi_importedModules m)"
  shows "wiringInv sc (importModule m st im)"
proof -
  have f: "mi_id m \<in> dom (w_byId st)" using wiringInv_modulesD [OF ok m] by auto
  note fp = idPaths_module [OF m]
  note iq = idPaths_import [OF m im]
  let ?n = "moduleNodeOf (cr_filePath im) (nameOr ''<Module>'' (cr_name im))"
  show ?thesis
  proof (cases "w_byId st (importTargetId im)")
    case None
    have eq: "importModule m st im = \<lparr> w_nodes = w_nodes st @ [?n],
          w_edges = w_edges st @ [\<lparr>e_from = mi_id m, e_to = importTargetId im,
             e_crossFile = (simplifyPath (mi_filePath m) \<noteq> simplifyPath (cr_filePath im))\<rparr>],
          w_byId = (w_byId st)(importTargetId im \<mapsto> ?n) \<rparr>"
      by (rule Wiring_eqI) (simp_all add: importModule_nodes importModule_edges importModule_byId None)
    have a1: "gn_id ?n = importTargetId im"
      by (simp add: importTargetId_def)
    have a2: "(importTargetId im, gn_filePath ?n) \<in> set (wiringIdPaths sc)"
      using iq by (simp add: moduleNodeOf_def)
    have a3: "gn_role ?n = Some RModule \<longrightarrow> importTargetId im \<in> set (registeredModuleIds sc)"
      using registered_import [OF m im] by simp
    show ?thesis
      unfolding eq by (rule wiringInv_fresh [OF ok f None a1 a2 a3 fp iq])
  next
    case (Some ex)
    have known: "importTargetId im \<in> dom (w_byId st)" using Some by auto
    have eq: "importModule m st im = st\<lparr> w_edges := w_edges st @
           [\<lparr>e_from = mi_id m, e_to = importTargetId im,
             e_crossFile = (simplifyPath (mi_filePath m) \<noteq> simplifyPath (cr_filePath im))\<rparr>] \<rparr>"
      by (rule Wiring_eqI) (simp_all add: importModule_nodes importModule_edges importModule_byId Some)
    show ?thesis unfolding eq
      by (rule wiringInv_edge [OF ok f known fp iq])
  qed
qed

lemma ensureNode_domCov: "domCov S st \<Longrightarrow> domCov S (ensureNode m sec st c)"
  unfolding domCov_def ensureNode_byId ensureNode_nodes
  by (cases "w_byId st (classNodeId c)") auto

lemma importModule_domCov: "domCov S st \<Longrightarrow> domCov S (importModule m st im)"
  unfolding domCov_def importModule_byId importModule_nodes
  by (cases "w_byId st (importTargetId im)") (auto simp: importTargetId_def)

lemma wireModule_inv:
  assumes ok: "wiringInv sc st" and m: "m \<in> set (modules sc)"
  shows "wiringInv sc (wireModule st m)"
proof -
  from wiringInv_modulesD [OF ok m] obtain n where n: "w_byId st (mi_id m) = Some n" by blast
  let ?st0 = "st\<lparr> w_nodes := w_nodes st @ [n] \<rparr>"
  have ok0: "wiringInv sc ?st0" by (rule wiringInv_push [OF ok n])
  let ?st1 = "foldl (ensureNode m ''Controllers'') ?st0 (mi_controllers m)"
  have ok1: "wiringInv sc ?st1"
    by (rule foldl_invariant [where P = "wiringInv sc", OF ok0]) (simp add: ensureNode_inv m)
  let ?st2 = "foldl (ensureNode m ''Providers'') ?st1 (mi_providers m)"
  have ok2: "wiringInv sc ?st2"
    by (rule foldl_invariant [where P = "wiringInv sc", OF ok1]) (simp add: ensureNode_inv m)
  have ok3: "wiringInv sc (foldl (importModule m) ?st2 (mi_importedModules m))"
    by (rule foldl_invariant [where P = "wiringInv sc", OF ok2]) (simp add: importModule_inv m)
  show ?thesis using ok3 by (simp add: wireModule_def n Let_def)
qed

lemma wireModule_domCov:
  assumes ok: "wiringInv sc st" and m: "m \<in> set (modules sc)"
    and cov: "domCov (insert (mi_id m) S) st"
  shows "domCov S (wireModule st m)"
proof -
  from wiringInv_modulesD [OF ok m] obtain n where n: "w_byId st (mi_id m) = Some n" by blast
  have ni: "gn_id n = mi_id m" using wiringInv_byIdD [OF ok n] by simp
  let ?st0 = "st\<lparr> w_nodes := w_nodes st @ [n] \<rparr>"
  have c0: "domCov S ?st0" using cov ni unfolding domCov_def by auto
  let ?st1 = "foldl (ensureNode m ''Controllers'') ?st0 (mi_controllers m)"
  have c1: "domCov S ?st1"
    by (rule foldl_invariant [where P = "domCov S", OF c0]) (simp add: ensureNode_domCov)
  let ?st2 = "foldl (ensureNode m ''Providers'') ?st1 (mi_providers m)"
  have c2: "domCov S ?st2"
    by (rule foldl_invariant [where P = "domCov S", OF c1]) (simp add: ensureNode_domCov)
  have c3: "domCov S (foldl (importModule m) ?st2 (mi_importedModules m))"
    by (rule foldl_invariant [where P = "domCov S", OF c2]) (simp add: importModule_domCov)
  show ?thesis using c3 by (simp add: wireModule_def n Let_def)
qed

lemma foldl_wireModule:
  "wiringInv sc st \<Longrightarrow> set ms \<subseteq> set (modules sc) \<Longrightarrow> domCov (mi_id ` set ms \<union> S) st \<Longrightarrow>
   wiringInv sc (foldl wireModule st ms) \<and> domCov S (foldl wireModule st ms)"
proof (induction ms arbitrary: st)
  case Nil
  then show ?case by simp
next
  case (Cons m ms)
  have m: "m \<in> set (modules sc)" using Cons.prems(2) by simp
  have ok: "wiringInv sc (wireModule st m)" by (rule wireModule_inv [OF Cons.prems(1) m])
  have "domCov (insert (mi_id m) (mi_id ` set ms \<union> S)) st" using Cons.prems(3) by simp
  then have cov: "domCov (mi_id ` set ms \<union> S) (wireModule st m)"
    by (rule wireModule_domCov [OF Cons.prems(1) m])
  show ?case using Cons.IH [OF ok _ cov] Cons.prems(2) by simp
qed

lemma scanned_initial:
  assumes "scannedOk sc"
  shows "wiringInv sc \<lparr> w_nodes = [], w_edges = [], w_byId = byId0 sc \<rparr>"
    and "domCov (mi_id ` set (modules sc)) \<lparr> w_nodes = [], w_edges = [], w_byId = byId0 sc \<rparr>"
proof -
  show "wiringInv sc \<lparr> w_nodes = [], w_edges = [], w_byId = byId0 sc \<rparr>"
  proof (rule wiringInvI)
    fix i n assume "w_byId \<lparr> w_nodes = [], w_edges = [], w_byId = byId0 sc \<rparr> i = Some n"
    then have "byId0 sc i = Some n" by simp
    with assms obtain m where "gn_id n = i" "gn_role n = Some RModule" "m \<in> set (modules sc)"
      "mi_id m = i" "mi_filePath m = gn_filePath n"
      unfolding scannedOk_def by blast
    then show "gn_id n = i \<and> (i, gn_filePath n) \<in> set (wiringIdPaths sc)
           \<and> (gn_role n = Some RModule \<longrightarrow> i \<in> set (registeredModuleIds sc))"
      using idPaths_module [of m sc] registered_module [of m sc] by auto
  next
    fix m assume m: "m \<in> set (modules sc)"
    with assms obtain n where n: "byId0 sc (mi_id m) = Some n" unfolding scannedOk_def by blast
    with assms have "gn_role n = Some RModule" unfolding scannedOk_def by blast
    with n show "\<exists>n. w_byId \<lparr> w_nodes = [], w_edges = [], w_byId = byId0 sc \<rparr> (mi_id m) = Some n
                   \<and> gn_role n = Some RModule" by simp
  qed simp_all
  show "domCov (mi_id ` set (modules sc)) \<lparr> w_nodes = [], w_edges = [], w_byId = byId0 sc \<rparr>"
  proof -
    have "i \<in> mi_id ` set (modules sc)" if "i \<in> dom (byId0 sc)" for i
    proof -
      from that obtain n where "byId0 sc i = Some n" by auto
      with assms obtain m where "m \<in> set (modules sc)" "mi_id m = i"
        unfolding scannedOk_def by blast
      then show ?thesis by auto
    qed
    then show ?thesis unfolding domCov_def by auto
  qed
qed

lemma wireModules_inv:
  assumes "scannedOk sc"
  shows "wiringInv sc (wireModules sc)" and "domCov {} (wireModules sc)"
  using foldl_wireModule [OF scanned_initial(1) [OF assms] subset_refl, of "{}"]
        scanned_initial(2) [OF assms]
  unfolding wireModules_def by simp_all

subsection \<open>The first loop establishes it\<close>

lemma singleValuedD:
  "singleValued ps \<Longrightarrow> (i, p) \<in> set ps \<Longrightarrow> (i, q) \<in> set ps \<Longrightarrow> p = q"
  unfolding singleValued_def list_all_iff by fastforce

lemma readProperty_keeps:
  "mi_id (readProperty info p) = mi_id info \<and> mi_name (readProperty info p) = mi_name info
   \<and> mi_filePath (readProperty info p) = mi_filePath info"
  by (cases "(info, p)" rule: readProperty.cases) (simp_all add: Let_def)

lemma foldl_readProperty_keeps:
  "mi_id (foldl readProperty info ps) = mi_id info \<and> mi_name (foldl readProperty info ps) = mi_name info
   \<and> mi_filePath (foldl readProperty info ps) = mi_filePath info"
  by (induction ps arbitrary: info) (simp_all add: readProperty_keeps)

lemma moduleInfoOf_fields:
  "mi_name (moduleInfoOf sf cls) = nameOr ''<Module>'' (cls_name cls)"
  "mi_id (moduleInfoOf sf cls) = hashedId (sf_filePath sf) (nameOr ''<Module>'' (cls_name cls))"
  "mi_filePath (moduleInfoOf sf cls) = sf_filePath sf"
  by (simp_all add: moduleInfoOf_def Let_def foldl_readProperty_keeps split: option.splits)

lemma scanClass_ok:
  assumes ok: "scannedOk st"
  shows "scannedOk (scanClass sf st cls)"
proof (cases "isModuleClass sf cls")
  case False
  then show ?thesis using ok by (simp add: scanClass_def)
next
  case True
  let ?info = "moduleInfoOf sf cls"
  let ?node = "moduleNodeOf (sf_filePath sf) (mi_name ?info)"
  have nid: "gn_id ?node = mi_id ?info" by (simp add: moduleInfoOf_fields)
  have npath: "gn_filePath ?node = mi_filePath ?info"
    by (simp add: moduleInfoOf_fields moduleNodeOf_def)
  have nrole: "gn_role ?node = Some RModule" by (simp add: moduleNodeOf_def)
  have eq: "scanClass sf st cls = \<lparr> modules = modules st @ [?info],
                                   byId0 = (byId0 st)(mi_id ?info \<mapsto> ?node) \<rparr>"
    using True nid by (simp add: scanClass_def Let_def)
  show ?thesis unfolding eq scannedOk_def
  proof (intro conjI allI impI ballI)
    fix i n assume "byId0 \<lparr> modules = modules st @ [?info],
                            byId0 = (byId0 st)(mi_id ?info \<mapsto> ?node) \<rparr> i = Some n"
    then consider "i = mi_id ?info" "n = ?node" | "byId0 st i = Some n"
      by (cases "i = mi_id ?info") auto
    then have r: "gn_id n = i \<and> gn_role n = Some RModule
         \<and> (\<exists>m \<in> set (modules st @ [?info]). mi_id m = i \<and> mi_filePath m = gn_filePath n)"
    proof cases
      case 1
      then show ?thesis using nid npath nrole by simp
    next
      case 2
      then show ?thesis using ok unfolding scannedOk_def by fastforce
    qed
    from r show "gn_id n = i" by simp
    from r show "gn_role n = Some RModule" by simp
    from r show "\<exists>m \<in> set (modules \<lparr> modules = modules st @ [?info],
                   byId0 = (byId0 st)(mi_id ?info \<mapsto> ?node) \<rparr>).
                   mi_id m = i \<and> mi_filePath m = gn_filePath n" by simp
  next
    fix m assume "m \<in> set (modules \<lparr> modules = modules st @ [?info],
                            byId0 = (byId0 st)(mi_id ?info \<mapsto> ?node) \<rparr>)"
    then consider "m \<in> set (modules st)" | "m = ?info" by auto
    then have "\<exists>n. ((byId0 st)(mi_id ?info \<mapsto> ?node)) (mi_id m) = Some n"
    proof cases
      case 1
      then obtain n where "byId0 st (mi_id m) = Some n" using ok unfolding scannedOk_def by blast
      then show ?thesis by (cases "mi_id m = mi_id ?info") auto
    next
      case 2
      then show ?thesis by simp
    qed
    then show "\<exists>n. byId0 \<lparr> modules = modules st @ [?info],
                   byId0 = (byId0 st)(mi_id ?info \<mapsto> ?node) \<rparr> (mi_id m) = Some n" by simp
  qed
qed

lemma scanModules_ok: "scannedOk (scanModules project filePaths)"
  unfolding scanModules_def
proof (rule foldl_invariant [where P = scannedOk])
  show "scannedOk \<lparr> modules = [], byId0 = Map.empty \<rparr>" by (simp add: scannedOk_def)
next
  fix s x assume s: "scannedOk s"
  show "scannedOk (case project x of None \<Rightarrow> s | Some sf \<Rightarrow> foldl (scanClass sf) s (sf_classes sf))"
  proof (cases "project x")
    case None then show ?thesis using s by simp
  next
    case (Some sf)
    have "scannedOk (foldl (scanClass sf) s (sf_classes sf))"
      by (rule foldl_invariant [where P = scannedOk, OF s]) (rule scanClass_ok)
    then show ?thesis using Some by simp
  qed
qed

subsection \<open>Edges of the returned wiring graph\<close>

lemma find_SomeD: "find P xs = Some x \<Longrightarrow> P x \<and> x \<in> set xs"
  by (induction xs) (auto split: if_splits)

lemma find_exists: "x \<in> set xs \<Longrightarrow> P x \<Longrightarrow> \<exists>y. find P xs = Some y"
  by (induction xs) auto

lemma find_uniqueNodes:
  assumes "i \<in> gn_id ` set ns"
  shows "\<exists>a \<in> set ns. gn_id a = i \<and> find (\<lambda>n. gn_id n = i) (uniqueNodes ns) = Some a"
proof -
  from assms obtain k where "k \<in> set (rev ns)" "gn_id k = i" by auto
  then obtain a where a: "find (\<lambda>n. gn_id n = i) (rev ns) = Some a"
    using find_exists [of k "rev ns" "\<lambda>n. gn_id n = i"] by blast
  have "find (\<lambda>n. gn_id n = i) (uniqueNodes ns) = Some a"
    unfolding uniqueNodes_def using a by (simp only: dedup_last_write)
  moreover have "gn_id a = i \<and> a \<in> set ns" using find_SomeD [OF a] by simp
  ultimately show ?thesis by blast
qed

lemma injectionEdge_Some:
  assumes "injectionEdge byId fromId p = Some e"
  shows "\<exists>fromNode toNode tid. byId fromId = Some fromNode \<and> byId tid = Some toNode
           \<and> e_from e = gn_id fromNode \<and> e_to e = gn_id toNode
           \<and> e_crossFile e = (simplifyPath (gn_filePath fromNode) \<noteq> simplifyPath (gn_filePath toNode))"
  using assms unfolding injectionEdge_def by (auto split: option.splits)

lemma injectionEdges_origin:
  assumes "e \<in> set (injectionEdges project st)"
  shows "\<exists>fromId fromNode toNode tid. w_byId st fromId = Some fromNode \<and> w_byId st tid = Some toNode
           \<and> e_from e = gn_id fromNode \<and> e_to e = gn_id toNode
           \<and> e_crossFile e = (simplifyPath (gn_filePath fromNode) \<noteq> simplifyPath (gn_filePath toNode))"
proof -
  from assms obtain entry where "e \<in> set (injectionEdgesOf (w_byId st) entry)"
    unfolding injectionEdges_def by auto
  then obtain p where "injectionEdge (w_byId st) (fst entry) p = Some e"
    unfolding injectionEdgesOf_def by (auto simp: set_map_filter split: list.splits)
  from injectionEdge_Some [OF this] show ?thesis by blast
qed

lemma wiring_find:
  assumes ok: "wiringInv sc st" and cov: "domCov {} st" and n: "w_byId st i = Some n"
  shows "find (\<lambda>k. gn_id k = i) (uniqueNodes (w_nodes st)) = Some n"
proof -
  have "i \<in> gn_id ` set (w_nodes st)" using cov n unfolding domCov_def by auto
  from find_uniqueNodes [OF this] obtain a where a: "a \<in> set (w_nodes st)" "gn_id a = i"
    "find (\<lambda>k. gn_id k = i) (uniqueNodes (w_nodes st)) = Some a" by blast
  have "w_byId st i = Some a" using wiringInv_nodesD [OF ok a(1)] a(2) by simp
  then show ?thesis using n a(3) by simp
qed

lemma wiring_edge_facts:
  assumes ok: "wiringInv sc st" and e: "e \<in> set (w_edges st @ injectionEdges project st)"
  shows "\<exists>a b. w_byId st (e_from e) = Some a \<and> w_byId st (e_to e) = Some b
           \<and> (singleValued (wiringIdPaths sc) \<longrightarrow>
                e_crossFile e = (simplifyPath (gn_filePath a) \<noteq> simplifyPath (gn_filePath b)))"
proof -
  from e consider "e \<in> set (w_edges st)" | "e \<in> set (injectionEdges project st)" by auto
  then show ?thesis
  proof cases
    case 1
    from wiringInv_edgesD [OF ok 1] obtain a b p q where
      a: "w_byId st (e_from e) = Some a" and b: "w_byId st (e_to e) = Some b"
      and p: "(e_from e, p) \<in> set (wiringIdPaths sc)" and q: "(e_to e, q) \<in> set (wiringIdPaths sc)"
      and x: "e_crossFile e = (simplifyPath p \<noteq> simplifyPath q)" by auto
    have pa: "(e_from e, gn_filePath a) \<in> set (wiringIdPaths sc)"
      using wiringInv_byIdD [OF ok a] by simp
    have qb: "(e_to e, gn_filePath b) \<in> set (wiringIdPaths sc)"
      using wiringInv_byIdD [OF ok b] by simp
    have "singleValued (wiringIdPaths sc) \<longrightarrow> p = gn_filePath a \<and> q = gn_filePath b"
      using singleValuedD [OF _ p pa] singleValuedD [OF _ q qb] by blast
    then show ?thesis using a b x by blast
  next
    case 2
    from injectionEdges_origin [OF 2] obtain fromId fromNode toNode tid where
      f: "w_byId st fromId = Some fromNode" and t: "w_byId st tid = Some toNode"
      and ef: "e_from e = gn_id fromNode" and et: "e_to e = gn_id toNode"
      and x: "e_crossFile e = (simplifyPath (gn_filePath fromNode) \<noteq> simplifyPath (gn_filePath toNode))"
      by blast
    have "gn_id fromNode = fromId" "gn_id toNode = tid"
      using wiringInv_byIdD [OF ok f] wiringInv_byIdD [OF ok t] by simp_all
    then show ?thesis using f t ef et x by auto
  qed
qed

lemma wiring_closed: "edgesClosed (analyzeWiringGraph project filePaths)"
proof -
  let ?sc = "scanModules project filePaths"
  let ?st = "wireModules ?sc"
  note ok = wireModules_inv(1) [OF scanModules_ok, of project filePaths]
  note cov = wireModules_inv(2) [OF scanModules_ok, of project filePaths]
  have "e_from e \<in> gn_id ` set (uniqueNodes (w_nodes ?st)) \<and> e_to e \<in> gn_id ` set (uniqueNodes (w_nodes ?st))"
    if "e \<in> set (uniqueEdges (w_edges ?st @ injectionEdges project ?st))" for e
  proof -
    have "e \<in> set (w_edges ?st @ injectionEdges project ?st)"
      using that dedup_subset [of edgeKey] unfolding uniqueEdges_def by blast
    from wiring_edge_facts [OF ok this] obtain a b where
      a: "w_byId ?st (e_from e) = Some a" and b: "w_byId ?st (e_to e) = Some b" by blast
    have fa: "find (\<lambda>k. gn_id k = e_from e) (uniqueNodes (w_nodes ?st)) = Some a"
      by (rule wiring_find [OF ok cov a])
    have fb: "find (\<lambda>k. gn_id k = e_to e) (uniqueNodes (w_nodes ?st)) = Some b"
      by (rule wiring_find [OF ok cov b])
    have "gn_id a = e_from e \<and> a \<in> set (uniqueNodes (w_nodes ?st))"
      and "gn_id b = e_to e \<and> b \<in> set (uniqueNodes (w_nodes ?st))"
      using find_SomeD [OF fa] find_SomeD [OF fb] by simp_all
    then show ?thesis by (metis image_eqI)
  qed
  then show ?thesis
    unfolding edgesClosed_def analyzeWiringGraph_def Let_def list_all_iff by simp
qed

lemma wiring_crossFile:
  assumes sv: "singleValued (wiringIdPaths (scanModules project filePaths))"
  shows "crossFileCorrect (analyzeWiringGraph project filePaths)"
proof -
  let ?sc = "scanModules project filePaths"
  let ?st = "wireModules ?sc"
  note ok = wireModules_inv(1) [OF scanModules_ok, of project filePaths]
  note cov = wireModules_inv(2) [OF scanModules_ok, of project filePaths]
  have "case (find (\<lambda>n. gn_id n = e_from e) (uniqueNodes (w_nodes ?st)),
              find (\<lambda>n. gn_id n = e_to e) (uniqueNodes (w_nodes ?st))) of
          (Some a, Some b) \<Rightarrow>
             e_crossFile e = (simplifyPath (gn_filePath a) \<noteq> simplifyPath (gn_filePath b))
        | _ \<Rightarrow> False"
    if "e \<in> set (uniqueEdges (w_edges ?st @ injectionEdges project ?st))" for e
  proof -
    have "e \<in> set (w_edges ?st @ injectionEdges project ?st)"
      using that dedup_subset [of edgeKey] unfolding uniqueEdges_def by blast
    from wiring_edge_facts [OF ok this] sv obtain a b where
      a: "w_byId ?st (e_from e) = Some a" and b: "w_byId ?st (e_to e) = Some b"
      and x: "e_crossFile e = (simplifyPath (gn_filePath a) \<noteq> simplifyPath (gn_filePath b))" by blast
    show ?thesis using wiring_find [OF ok cov a] wiring_find [OF ok cov b] x by simp
  qed
  then show ?thesis
    unfolding crossFileCorrect_def analyzeWiringGraph_def Let_def list_all_iff by simp
qed

section \<open>Edges of the returned call graph\<close>

lemma nodeOf_id [simp]: "gn_id (nodeOf c) = ci_id c" and nodeOf_path [simp]: "gn_filePath (nodeOf c) = ci_filePath c"
  by (simp_all add: nodeOf_def)

lemma directory_edge_facts:
  assumes e: "e \<in> set (edges (analyzeDirectoryGraph project filePaths))"
  shows "\<exists>caller \<in> set (callables (collectCallables project filePaths)).
         \<exists>callee \<in> set (callables (collectCallables project filePaths)).
           e_from e = ci_id caller \<and> e_to e = ci_id callee \<and> ci_id caller \<noteq> ci_id callee
           \<and> e_crossFile e = (simplifyPath (ci_filePath caller) \<noteq> simplifyPath (ci_filePath callee))"
proof -
  let ?st = "collectCallables project filePaths"
  have "e \<in> set (callEdges ?st)"
    using e dedup_subset [of edgeKey] unfolding analyzeDirectoryGraph_def uniqueEdges_def Let_def
    by auto
  from callEdges_origin [OF this] obtain caller callee where
    "caller \<in> set (callables ?st)" "callee \<in> ran (callablesByDecl ?st)"
    "e_from e = ci_id caller \<and> e_to e = ci_id callee \<and> ci_id caller \<noteq> ci_id callee
           \<and> e_crossFile e = (simplifyPath (ci_filePath caller) \<noteq> simplifyPath (ci_filePath callee))"
    by blast
  moreover have "ran (callablesByDecl ?st) \<subseteq> set (callables ?st)"
    using collectCallables_ok [of project filePaths] unfolding collectedOk_def .
  ultimately show ?thesis by blast
qed

lemma directory_find:
  assumes "c \<in> set (callables (collectCallables project filePaths))"
  shows "\<exists>c' \<in> set (callables (collectCallables project filePaths)). ci_id c' = ci_id c
          \<and> find (\<lambda>n. gn_id n = ci_id c) (nodes (analyzeDirectoryGraph project filePaths)) = Some (nodeOf c')"
proof -
  let ?ns = "map nodeOf (callables (collectCallables project filePaths))"
  have "ci_id c \<in> gn_id ` set ?ns" using assms by force
  from find_uniqueNodes [OF this] obtain a where "a \<in> set ?ns" "gn_id a = ci_id c"
    "find (\<lambda>n. gn_id n = ci_id c) (uniqueNodes ?ns) = Some a" by blast
  then show ?thesis unfolding analyzeDirectoryGraph_def Let_def by auto
qed

lemma directory_no_self_loop:
  "e \<in> set (edges (analyzeDirectoryGraph project filePaths)) \<Longrightarrow> e_from e \<noteq> e_to e"
  using directory_edge_facts by fastforce

lemma directory_closed: "edgesClosed (analyzeDirectoryGraph project filePaths)"
proof -
  have "e_from e \<in> gn_id ` set (nodes (analyzeDirectoryGraph project filePaths))
        \<and> e_to e \<in> gn_id ` set (nodes (analyzeDirectoryGraph project filePaths))"
    if e: "e \<in> set (edges (analyzeDirectoryGraph project filePaths))" for e
  proof -
    from directory_edge_facts [OF e] obtain caller callee where
      c: "caller \<in> set (callables (collectCallables project filePaths))"
         "callee \<in> set (callables (collectCallables project filePaths))"
         "e_from e = ci_id caller" "e_to e = ci_id callee" by blast
    from directory_find [OF c(1)] directory_find [OF c(2)] obtain a b where
      "find (\<lambda>n. gn_id n = ci_id caller) (nodes (analyzeDirectoryGraph project filePaths)) = Some a"
      "find (\<lambda>n. gn_id n = ci_id callee) (nodes (analyzeDirectoryGraph project filePaths)) = Some b"
      by blast
    from find_SomeD [OF this(1)] find_SomeD [OF this(2)] c(3,4) show ?thesis
      by (metis image_eqI)
  qed
  then show ?thesis unfolding edgesClosed_def list_all_iff by simp
qed

lemma directory_crossFile:
  assumes sv: "singleValued (callableIdPaths project filePaths)"
  shows "crossFileCorrect (analyzeDirectoryGraph project filePaths)"
proof -
  let ?g = "analyzeDirectoryGraph project filePaths"
  let ?cs = "callables (collectCallables project filePaths)"
  have same: "ci_filePath c = ci_filePath c'" if "c \<in> set ?cs" "c' \<in> set ?cs" "ci_id c = ci_id c'" for c c'
  proof -
    have "(ci_id c, ci_filePath c) \<in> set (callableIdPaths project filePaths)"
      using that(1) unfolding callableIdPaths_def by (simp add: image_iff) blast
    moreover have "(ci_id c', ci_filePath c') \<in> set (callableIdPaths project filePaths)"
      using that(2) unfolding callableIdPaths_def by (simp add: image_iff) blast
    ultimately show ?thesis using that(3) singleValuedD [OF sv] by metis
  qed
  have "case (find (\<lambda>n. gn_id n = e_from e) (nodes ?g), find (\<lambda>n. gn_id n = e_to e) (nodes ?g)) of
          (Some a, Some b) \<Rightarrow>
             e_crossFile e = (simplifyPath (gn_filePath a) \<noteq> simplifyPath (gn_filePath b))
        | _ \<Rightarrow> False"
    if e: "e \<in> set (edges ?g)" for e
  proof -
    from directory_edge_facts [OF e] obtain caller callee where
      c: "caller \<in> set ?cs" "callee \<in> set ?cs" "e_from e = ci_id caller" "e_to e = ci_id callee"
      and x: "e_crossFile e = (simplifyPath (ci_filePath caller) \<noteq> simplifyPath (ci_filePath callee))"
      by blast
    from directory_find [OF c(1)] obtain a where a: "a \<in> set ?cs" "ci_id a = ci_id caller"
      "find (\<lambda>n. gn_id n = ci_id caller) (nodes ?g) = Some (nodeOf a)" by blast
    from directory_find [OF c(2)] obtain b where b: "b \<in> set ?cs" "ci_id b = ci_id callee"
      "find (\<lambda>n. gn_id n = ci_id callee) (nodes ?g) = Some (nodeOf b)" by blast
    have "ci_filePath a = ci_filePath caller" "ci_filePath b = ci_filePath callee"
      using same [OF a(1) c(1) a(2)] same [OF b(1) c(2) b(2)] by simp_all
    then show ?thesis using a(3) b(3) c(3,4) x by simp
  qed
  then show ?thesis unfolding crossFileCorrect_def list_all_iff by simp
qed

section \<open>Evaluating the examples\<close>

text \<open>
  The unfolding rules by which the simplifier runs the analyses on a concrete project.
  \<open>shortHash\<close> stays folded: the ids of the examples differ before their hash.
\<close>

lemmas collect_defs = collectCallables_def collectFile_def addFunction_def addClass_def addVariable_def
  addInitializer_def addCallable_def callableInfo_def idFor_def qualifiedName_def orAnon_def
  functionName_def buildSignatureKey_def fileKeyFor_def Let_def

lemmas example_defs = classRef_def classSymbol_def plainDecorator_def moduleDecorator_def
  typedParam_def userService_def userController_def mkFunction_def mkMethod_def callTo_def

lemmas scan_defs = scanModules_def scanClass_def isModuleClass_def fileNameIndicatesModule_def
  endsWith_def moduleInfoOf_def moduleNodeOf_def moduleKeyFor_def hashedId_def nameOr_def
  stripQuotes_def classesOfSymbol_def unwrapAlias_def Let_def

lemmas wire_defs = wireModules_def wireModule_def ensureNode_def importModule_def pushEdge_def
  classNodeOf_def classNodeId_def importTargetId_def roleFor_def

lemmas inject_defs = injectionEdges_def injectionEdgesOf_def injectionEdge_def classDeclsById_def
  findClass_def targetClass_def injectTarget_def firstClass_def

lemma nestApp_scan:
  "modules (scanModules nestApp nestAppPaths) =
     [\<lparr> mi_id = ''/src/app.module.ts#AppModule::'' @ shortHash ''AppModule'',
        mi_name = ''AppModule'', mi_filePath = ''/src/app.module.ts'',
        mi_fileKey = moduleKeyFor ''/src/app.module.ts'' ''AppModule'',
        mi_controllers = [userController], mi_providers = [userService],
        mi_importedModules = [] \<rparr>]"
  by (simp add: nestApp_def nestAppPaths_def scan_defs example_defs)

lemma nestApp_sv: "singleValued (wiringIdPaths (scanModules nestApp nestAppPaths))"
  by (simp add: wiringIdPaths_def moduleIdPaths_def nestApp_scan singleValued_def classNodeId_def
       hashedId_def nameOr_def example_defs)

lemma nestApp_edges:
  "edges (analyzeWiringGraph nestApp nestAppPaths) =
     [\<lparr> e_from = ''/src/app.module.ts#AppModule::'' @ shortHash ''AppModule'',
        e_to = ''/src/user.controller.ts#UserController::'' @ shortHash ''UserController'',
        e_crossFile = True \<rparr>,
      \<lparr> e_from = ''/src/app.module.ts#AppModule::'' @ shortHash ''AppModule'',
        e_to = ''/src/user.service.ts#UserService::'' @ shortHash ''UserService'',
        e_crossFile = True \<rparr>,
      \<lparr> e_from = ''/src/user.controller.ts#UserController::'' @ shortHash ''UserController'',
        e_to = ''/src/user.service.ts#UserService::'' @ shortHash ''UserService'',
        e_crossFile = True \<rparr>]"
  by (simp add: analyzeWiringGraph_def nestApp_def nestAppPaths_def scan_defs example_defs wire_defs
       inject_defs uniqueEdges_def mapFromEntries_def edgeKey_def simplifyPath_def)

lemmas graph_defs = analyzeDirectoryGraph_def callEdges_def callEdge_def
      unwrapAlias_def matchCallableFromDecl_def uniqueEdges_def uniqueNodes_def mapFromEntries_def edgeKey_def
      simplifyPath_def nodeOf_def

section \<open>The short hash holds no colon\<close>

lemma of_char_digit36: "d < 36 \<Longrightarrow> (of_char (digit36 d) :: nat) = (if d < 10 then 48 + d else 87 + d)"
  by (simp add: digit36_def)

lemma digit36_not_colon: "d < 36 \<Longrightarrow> digit36 d \<noteq> CHR '':''"
proof
  assume d: "d < 36" and "digit36 d = CHR '':''"
  then have "(of_char (digit36 d) :: nat) = of_char (CHR '':'')" by simp
  then show False using of_char_digit36 [OF d] by (simp split: if_splits)
qed

lemma toString36_no_colon:
  "CHR '':'' \<notin> set acc \<Longrightarrow> CHR '':'' \<notin> set (toString36 n acc)"
proof (induction n acc rule: toString36.induct)
  case (1 n acc)
  show ?case
  proof (cases "n < 36")
    case True
    then have "toString36 n acc = digit36 n # acc" by (subst toString36.simps) simp
    then show ?thesis using 1(2) digit36_not_colon [OF True] by auto
  next
    case False
    have "n mod 36 < 36" by simp
    then have "CHR '':'' \<notin> set (digit36 (n mod 36) # acc)"
      using 1(2) digit36_not_colon [of "n mod 36"] by auto
    from 1(1) [OF False this] have "CHR '':'' \<notin> set (toString36 (n div 36) (digit36 (n mod 36) # acc))" .
    moreover have "toString36 n acc = toString36 (n div 36) (digit36 (n mod 36) # acc)"
      using False by (subst toString36.simps) simp
    ultimately show ?thesis by simp
  qed
qed

lemma shortHash_no_colon: "CHR '':'' \<notin> set (shortHash s)"
proof -
  have "CHR '':'' \<notin> set (toString36 (unat (fnv1a s)) [])"
    by (rule toString36_no_colon) simp
  then show ?thesis unfolding shortHash_def by (auto dest: in_set_takeD)
qed

lemma takeWhile_stop: "x \<notin> set xs \<Longrightarrow> takeWhile (\<lambda>c. c \<noteq> x) (xs @ x # ys) = xs"
  by (induction xs) auto

lemma split_at_last_colons:
  assumes eq: "q1 @ ''::'' @ h1 = q2 @ ''::'' @ h2"
    and h1: "CHR '':'' \<notin> set h1" and h2: "CHR '':'' \<notin> set h2"
  shows "q1 = q2 \<and> h1 = h2"
proof -
  have "rev (q1 @ ''::'' @ h1) = rev (q2 @ ''::'' @ h2)" using eq by simp
  then have r: "rev h1 @ CHR '':'' # (CHR '':'' # rev q1) = rev h2 @ CHR '':'' # (CHR '':'' # rev q2)"
    by simp
  have "takeWhile (\<lambda>c. c \<noteq> CHR '':'') (rev h1 @ CHR '':'' # (CHR '':'' # rev q1)) = rev h1"
    by (rule takeWhile_stop) (simp add: h1)
  moreover have "takeWhile (\<lambda>c. c \<noteq> CHR '':'') (rev h2 @ CHR '':'' # (CHR '':'' # rev q2)) = rev h2"
    by (rule takeWhile_stop) (simp add: h2)
  ultimately have "rev h1 = rev h2" using r by simp
  then have h: "h1 = h2" by simp
  with eq show ?thesis by simp
qed

text \<open>
  When two callables get the same id: the part before the last \<open>::\<close> (file path, \<open>#\<close>,
  qualified name) and the short hash of the signature key are the same.
\<close>

lemma callable_id_collision_iff:
  "ci_id (callableInfo sf1 d1 n1 c1 r1) = ci_id (callableInfo sf2 d2 n2 c2 r2)
   \<longleftrightarrow> sf_filePath sf1 @ ''#'' @ qualifiedName c1 n1 = sf_filePath sf2 @ ''#'' @ qualifiedName c2 n2
       \<and> shortHash (buildSignatureKey d1) = shortHash (buildSignatureKey d2)"
proof
  assume "ci_id (callableInfo sf1 d1 n1 c1 r1) = ci_id (callableInfo sf2 d2 n2 c2 r2)"
  then have "(sf_filePath sf1 @ ''#'' @ qualifiedName c1 n1) @ ''::'' @ shortHash (buildSignatureKey d1)
             = (sf_filePath sf2 @ ''#'' @ qualifiedName c2 n2) @ ''::'' @ shortHash (buildSignatureKey d2)"
    by (simp add: callableInfo_def idFor_def)
  then show "sf_filePath sf1 @ ''#'' @ qualifiedName c1 n1 = sf_filePath sf2 @ ''#'' @ qualifiedName c2 n2
       \<and> shortHash (buildSignatureKey d1) = shortHash (buildSignatureKey d2)"
    by (rule split_at_last_colons) (rule shortHash_no_colon)+
next
  assume "sf_filePath sf1 @ ''#'' @ qualifiedName c1 n1 = sf_filePath sf2 @ ''#'' @ qualifiedName c2 n2
       \<and> shortHash (buildSignatureKey d1) = shortHash (buildSignatureKey d2)"
  then show "ci_id (callableInfo sf1 d1 n1 c1 r1) = ci_id (callableInfo sf2 d2 n2 c2 r2)"
    by (simp add: callableInfo_def idFor_def)
qed

section \<open>De-duplication by key and by pair\<close>

text \<open>
  Two key functions that agree on which entries of a list are equal give the same
  de-duplicated list.
\<close>

lemma update_keyed:
  "(\<forall>v\<in>set vs. (k1 v = k1 x) = (k2 v = k2 x)) \<Longrightarrow>
   map snd (AList.update (k1 x) x (map (\<lambda>v. (k1 v, v)) vs))
   = map snd (AList.update (k2 x) x (map (\<lambda>v. (k2 v, v)) vs))"
  by (induction vs) simp_all

lemma mapFromEntries_snoc:
  "mapFromEntries (es @ [(k, v)]) = AList.update k v (mapFromEntries es)"
  by (simp add: mapFromEntries_def)

lemma dedup_key_change:
  "(\<forall>x\<in>set xs. \<forall>y\<in>set xs. (k1 x = k1 y) = (k2 x = k2 y)) \<Longrightarrow>
   map snd (mapFromEntries (map (\<lambda>x. (k1 x, x)) xs))
   = map snd (mapFromEntries (map (\<lambda>x. (k2 x, x)) xs))"
proof (induction xs rule: rev_induct)
  case Nil
  show ?case by (simp add: mapFromEntries_def)
next
  case (snoc x xs)
  let ?d1 = "map snd (mapFromEntries (map (\<lambda>x. (k1 x, x)) xs))"
  let ?d2 = "map snd (mapFromEntries (map (\<lambda>x. (k2 x, x)) xs))"
  have ih: "?d1 = ?d2" using snoc by simp
  have sub: "set ?d1 \<subseteq> set xs" by (rule dedup_subset)
  have agree: "\<forall>v\<in>set ?d1. (k1 v = k1 x) = (k2 v = k2 x)"
    using snoc.prems sub by auto
  have "map snd (mapFromEntries (map (\<lambda>x. (k1 x, x)) (xs @ [x])))
        = map snd (AList.update (k1 x) x (map (\<lambda>v. (k1 v, v)) ?d1))"
    by (simp only: map_append list.map mapFromEntries_snoc entries_collapse)
  also have "\<dots> = map snd (AList.update (k2 x) x (map (\<lambda>v. (k2 v, v)) ?d1))"
    by (rule update_keyed [OF agree])
  also have "\<dots> = map snd (mapFromEntries (map (\<lambda>x. (k2 x, x)) (xs @ [x])))"
    by (simp only: ih map_append list.map mapFromEntries_snoc entries_collapse)
  finally show ?case .
qed

lemma edgeKey_of_pair: "edgePair x = edgePair y \<Longrightarrow> edgeKey x = edgeKey y"
  by (simp add: edgePair_def edgeKey_def)

lemma keysTellPairs_dedup:
  assumes "keysTellPairs es"
  shows "uniqueEdges es = uniqueEdgesByPair es"
proof -
  have "(edgeKey x = edgeKey y) = (edgePair x = edgePair y)"
    if "x \<in> set es" "y \<in> set es" for x y
  proof -
    have "edgeKey x = edgeKey y \<longrightarrow> edgePair x = edgePair y"
      using assms that unfolding keysTellPairs_def list_all_iff by blast
    then show ?thesis using edgeKey_of_pair [of x y] by blast
  qed
  then have "\<forall>x\<in>set es. \<forall>y\<in>set es. (edgeKey x = edgeKey y) = (edgePair x = edgePair y)"
    by blast
  then show ?thesis
    unfolding uniqueEdges_def uniqueEdgesByPair_def
    by (rule dedup_key_change [where ?k1.0 = edgeKey and ?k2.0 = edgePair])
qed
lemma split_at_bar:
  assumes "p @ ''|'' @ s = q @ ''|'' @ t" "CHR ''|'' \<notin> set p" "CHR ''|'' \<notin> set q"
  shows "p = q \<and> s = t"
proof -
  have "takeWhile (\<lambda>c. c \<noteq> CHR ''|'') (p @ CHR ''|'' # s) = p"
    by (rule takeWhile_stop [OF assms(2)])
  moreover have "takeWhile (\<lambda>c. c \<noteq> CHR ''|'') (q @ CHR ''|'' # t) = q"
    by (rule takeWhile_stop [OF assms(3)])
  ultimately have "p = q" using assms(1) by simp
  then show ?thesis using assms(1) by simp
qed

lemma barFree_keysTellPairs:
  assumes "barFree es"
  shows "keysTellPairs es"
  unfolding keysTellPairs_def list_all_iff
proof (intro ballI impI)
  fix x y assume x: "x \<in> set es" and y: "y \<in> set es" and k: "edgeKey x = edgeKey y"
  have bx: "CHR ''|'' \<notin> set (e_from x)" and "by": "CHR ''|'' \<notin> set (e_from y)"
    using assms x y by (simp_all add: barFree_def list_all_iff)
  have "e_from x = e_from y \<and> e_to x = e_to y"
    by (rule split_at_bar [OF k [unfolded edgeKey_def] bx "by"])
  then show "edgePair x = edgePair y" by (simp add: edgePair_def)
qed

lemma dedup_pairs_distinct: "distinct (map edgePair (uniqueEdges es))"
proof (rule distinct_map_pair [where g = "\<lambda>p. fst p @ ''|'' @ snd p"])
  have "distinct (map edgeKey (uniqueEdges es))"
    unfolding uniqueEdges_def by (rule dedup_keys_distinct)
  then show "distinct (map (\<lambda>e. fst (edgePair e) @ ''|'' @ snd (edgePair e)) (uniqueEdges es))"
    by (simp add: edgeKey_def [abs_def] edgePair_def)
qed

lemma dedup_by_pair:
  assumes "keysTellPairs es"
  shows "uniqueEdges es = uniqueEdgesByPair es
        \<and> edgePair ` set (uniqueEdges es) = edgePair ` set es
        \<and> find (\<lambda>e. edgePair e = pr) (uniqueEdges es) = find (\<lambda>e. edgePair e = pr) (rev es)"
proof -
  have eq: "uniqueEdges es = uniqueEdgesByPair es" by (rule keysTellPairs_dedup [OF assms])
  have "edgePair ` set (uniqueEdgesByPair es) = edgePair ` set es"
    unfolding uniqueEdgesByPair_def by (rule dedup_set_keys)
  moreover have "find (\<lambda>e. edgePair e = pr) (uniqueEdgesByPair es)
                 = find (\<lambda>e. edgePair e = pr) (rev es)"
    unfolding uniqueEdgesByPair_def by (rule dedup_last_write)
  ultimately show ?thesis by (simp only: eq simp_thms)
qed

lemma dedup_always:
  "uniqueNodes (uniqueNodes ns) = uniqueNodes ns
   \<and> uniqueEdges (uniqueEdges es) = uniqueEdges es
   \<and> distinct (map gn_id (uniqueNodes ns))
   \<and> distinct (map edgeKey (uniqueEdges es))
   \<and> distinct (map edgePair (uniqueEdges es))
   \<and> gn_id ` set (uniqueNodes ns) = gn_id ` set ns
   \<and> edgeKey ` set (uniqueEdges es) = edgeKey ` set es
   \<and> find (\<lambda>n. gn_id n = i) (uniqueNodes ns) = find (\<lambda>n. gn_id n = i) (rev ns)
   \<and> find (\<lambda>e. edgeKey e = k) (uniqueEdges es) = find (\<lambda>e. edgeKey e = k) (rev es)"
  using dedup_pairs_distinct [of es]
  unfolding uniqueNodes_def uniqueEdges_def
  by (simp only: dedup_idem dedup_keys_distinct dedup_set_keys dedup_last_write simp_thms)

section \<open>File paths without the separator\<close>

lemma take_prefix_stop:
  assumes "take (length p + 1) i = p @ [x]" "take (length q + 1) i = q @ [x]"
    and "x \<notin> set p" "x \<notin> set q"
  shows "p = q"
proof -
  have ip: "takeWhile (\<lambda>c. c \<noteq> x) i = p"
  proof -
    have "i = (p @ [x]) @ drop (length p + 1) i" using assms(1) by (metis append_take_drop_id)
    then have "i = p @ x # drop (length p + 1) i" by simp
    then have "takeWhile (\<lambda>c. c \<noteq> x) i = takeWhile (\<lambda>c. c \<noteq> x) (p @ x # drop (length p + 1) i)"
      by simp
    then show ?thesis using takeWhile_stop [OF assms(3)] by simp
  qed
  have iq: "takeWhile (\<lambda>c. c \<noteq> x) i = q"
  proof -
    have "i = (q @ [x]) @ drop (length q + 1) i" using assms(2) by (metis append_take_drop_id)
    then have "i = q @ x # drop (length q + 1) i" by simp
    then have "takeWhile (\<lambda>c. c \<noteq> x) i = takeWhile (\<lambda>c. c \<noteq> x) (q @ x # drop (length q + 1) i)"
      by simp
    then show ?thesis using takeWhile_stop [OF assms(4)] by simp
  qed
  from ip iq show ?thesis by simp
qed

lemma hashFree_singleValued:
  assumes "idsExtendPaths ps" "hashFreePaths ps"
  shows "singleValued ps"
proof -
  have "snd a = snd b" if "a \<in> set ps" "b \<in> set ps" "fst a = fst b" for a b
  proof (rule take_prefix_stop [where x = "CHR ''#''" and i = "fst a"])
    show "take (length (snd a) + 1) (fst a) = snd a @ [CHR ''#'']"
      using assms(1) that(1) unfolding idsExtendPaths_def list_all_iff by simp
    show "take (length (snd b) + 1) (fst a) = snd b @ [CHR ''#'']"
      using assms(1) that(2,3) unfolding idsExtendPaths_def list_all_iff by simp
    show "CHR ''#'' \<notin> set (snd a)" "CHR ''#'' \<notin> set (snd b)"
      using assms(2) that(1,2) unfolding hashFreePaths_def list_all_iff by simp_all
  qed
  then show ?thesis unfolding singleValued_def list_all_iff by blast
qed

lemma addCallable_idsOk: "idsOk st \<Longrightarrow> idsOk (addCallable sf d n cn r st)"
  by (simp add: idsOk_def addCallable_def callableInfo_def idFor_def Let_def)

lemma addInitializer_idsOk: "idsOk st \<Longrightarrow> idsOk (addInitializer sf n cn r init st)"
  by (cases init; cases "the init") (simp_all add: addInitializer_def addCallable_idsOk)

lemma addClass_idsOk: "idsOk st \<Longrightarrow> idsOk (addClass sf st cls)"
  unfolding addClass_def Let_def
  by (rule foldl_invariant [where P = idsOk], rule foldl_invariant [where P = idsOk])
     (simp_all add: addCallable_idsOk addInitializer_idsOk)

lemma collectFile_idsOk: "idsOk st \<Longrightarrow> idsOk (collectFile sf st)"
  unfolding collectFile_def
  by (rule foldl_invariant [where P = idsOk], rule foldl_invariant [where P = idsOk],
      rule foldl_invariant [where P = idsOk])
     (simp_all add: addVariable_def addFunction_def addCallable_idsOk addInitializer_idsOk addClass_idsOk)

lemma collectCallables_idsOk: "idsOk (collectCallables project filePaths)"
  unfolding collectCallables_def
proof (rule foldl_invariant [where P = idsOk])
  show "idsOk \<lparr>callables = [], callablesByDecl = Map.empty\<rparr>" by (simp add: idsOk_def)
next
  fix s x assume "idsOk s"
  then show "idsOk (case project x of None \<Rightarrow> s | Some sf \<Rightarrow> collectFile sf s)"
    by (simp add: collectFile_idsOk split: option.splits)
qed

lemma callableIdPaths_extend: "idsExtendPaths (callableIdPaths project filePaths)"
  using collectCallables_idsOk [of project filePaths]
  unfolding idsExtendPaths_def callableIdPaths_def idsOk_def list_all_iff by simp

lemma scanClass_moduleIdsOk: "moduleIdsOk st \<Longrightarrow> moduleIdsOk (scanClass sf st cls)"
  by (simp add: moduleIdsOk_def scanClass_def Let_def moduleInfoOf_fields hashedId_def)

lemma scanModules_moduleIdsOk: "moduleIdsOk (scanModules project filePaths)"
  unfolding scanModules_def
proof (rule foldl_invariant [where P = moduleIdsOk])
  show "moduleIdsOk \<lparr> modules = [], byId0 = Map.empty \<rparr>" by (simp add: moduleIdsOk_def)
next
  fix s x assume s: "moduleIdsOk s"
  show "moduleIdsOk (case project x of None \<Rightarrow> s | Some sf \<Rightarrow> foldl (scanClass sf) s (sf_classes sf))"
  proof (cases "project x")
    case None then show ?thesis using s by simp
  next
    case (Some sf)
    have "moduleIdsOk (foldl (scanClass sf) s (sf_classes sf))"
      by (rule foldl_invariant [where P = moduleIdsOk, OF s]) (rule scanClass_moduleIdsOk)
    then show ?thesis using Some by simp
  qed
qed

lemma wiringIdPaths_extend: "idsExtendPaths (wiringIdPaths (scanModules project filePaths))"
proof -
  have "take (length (snd ip) + 1) (fst ip) = snd ip @ ''#''"
    if "m \<in> set (modules (scanModules project filePaths))" "ip \<in> set (moduleIdPaths m)" for m ip
  proof -
    from that(2) consider "ip = (mi_id m, mi_filePath m)"
      | c where "ip = (classNodeId c, cr_filePath c)"
      | im where "ip = (importTargetId im, cr_filePath im)"
      unfolding moduleIdPaths_def by auto
    then show ?thesis
    proof cases
      case 1
      then show ?thesis using scanModules_moduleIdsOk [of project filePaths] that(1)
        unfolding moduleIdsOk_def by simp
    next
      case 2
      then show ?thesis by (simp add: classNodeId_def hashedId_def)
    next
      case 3
      then show ?thesis by (simp add: importTargetId_def hashedId_def)
    qed
  qed
  then show ?thesis unfolding idsExtendPaths_def wiringIdPaths_def list_all_iff by auto
qed

lemma hash_free_paths_suffice:
  "(hashFreePaths (callableIdPaths project filePaths)
      \<longrightarrow> singleValued (callableIdPaths project filePaths))
   \<and> (hashFreePaths (wiringIdPaths (scanModules project filePaths))
      \<longrightarrow> singleValued (wiringIdPaths (scanModules project filePaths)))"
  using hashFree_singleValued [OF callableIdPaths_extend]
    hashFree_singleValued [OF wiringIdPaths_extend] by blast

section \<open>Missing files and empty projects\<close>

lemma foldl_filter_skip:
  "(\<And>s x. \<not> Q x \<Longrightarrow> f s x = s) \<Longrightarrow> foldl f s (filter Q xs) = foldl f s xs"
  by (induction xs arbitrary: s) simp_all

lemma collectCallables_present:
  "collectCallables project (present project filePaths) = collectCallables project filePaths"
  unfolding collectCallables_def present_def
  by (rule foldl_filter_skip) (simp split: option.splits)

lemma scanModules_present:
  "scanModules project (present project filePaths) = scanModules project filePaths"
  unfolding scanModules_def present_def
  by (rule foldl_filter_skip) (simp split: option.splits)

lemma moduleNodes_present:
  "concat (map (\<lambda>filePath. case project filePath of None \<Rightarrow> [] | Some sf \<Rightarrow> moduleNodes sf)
               (present project filePaths))
   = concat (map (\<lambda>filePath. case project filePath of None \<Rightarrow> [] | Some sf \<Rightarrow> moduleNodes sf)
               filePaths)"
  unfolding present_def by (induction filePaths) (simp_all split: option.splits)

lemma foldl_const: "(\<And>s x. f s x = s) \<Longrightarrow> foldl f s xs = s"
  by (induction xs) simp_all

lemma collect_empty:
  "collectCallables Map.empty filePaths = \<lparr> callables = [], callablesByDecl = Map.empty \<rparr>"
  unfolding collectCallables_def by (rule foldl_const) simp

lemma scan_empty: "scanModules Map.empty filePaths = \<lparr> modules = [], byId0 = Map.empty \<rparr>"
  unfolding scanModules_def by (rule foldl_const) simp

lemma concat_map_Nil: "concat (map (\<lambda>x. []) xs) = []"
  by (induction xs) simp_all

lemma uniqueNodes_Nil [simp]: "uniqueNodes [] = []"
  by (simp add: uniqueNodes_def mapFromEntries_def)

lemma uniqueEdges_Nil [simp]: "uniqueEdges [] = []"
  by (simp add: uniqueEdges_def mapFromEntries_def)

section \<open>Secondary constructors\<close>

lemma foldl_map: "foldl f s (map g xs) = foldl (\<lambda>s x. f s (g x)) s xs"
  by (induction xs arbitrary: s) simp_all




lemma find_map_comp: "find P (map g xs) = map_option g (find (P \<circ> g) xs)"
  by (induction xs) simp_all


lemma update_map_values:
  "AList.update k (g v) (map (\<lambda>kv. (fst kv, g (snd kv))) m)
   = map (\<lambda>kv. (fst kv, g (snd kv))) (AList.update k v m)"
  by (induction m) auto



subsection \<open>The injection edges come from the first constructor\<close>

















section \<open>Roles of containment targets\<close>











section \<open>Renaming node identities\<close>

lemma typeText_rename [simp]: "typeText (renameParameter r p) = typeText p"
  by (simp add: typeText_def renameParameter_def split: option.splits)

lemma buildSignatureKey_rename [simp]:
  "buildSignatureKey (renameCallable r d) = buildSignatureKey d"
  by (simp add: buildSignatureKey_def renameCallable_def comp_def)

lemma callableInfo_rename:
  "sf_filePath sf' = sf_filePath sf \<Longrightarrow>
   callableInfo sf' (renameCallable r d) name cn role = renameInfo r (callableInfo sf d name cn role)"
  by (simp add: callableInfo_def renameInfo_def idFor_def) (simp add: renameCallable_def)

lemma addCallable_rename:
  assumes "inj r" "renamed r st st'" "sf_filePath sf' = sf_filePath sf"
  shows "renamed r (addCallable sf d name cn role st) (addCallable sf' (renameCallable r d) name cn role st')"
proof -
  have k: "c_ident (renameCallable r d) = r (c_ident d)" by (simp add: renameCallable_def)
  have "(r i = r (c_ident d)) = (i = c_ident d)" for i
    using assms(1) by (auto dest: injD)
  then show ?thesis
    using assms(2)
    unfolding renamed_def addCallable_def Let_def callableInfo_rename [OF assms(3)] k
    by simp
qed

lemma foldl_rel:
  assumes "R s s'" and "\<And>s s' x. R s s' \<Longrightarrow> R (f s x) (f' s' (g x))"
  shows "R (foldl f s xs) (foldl f' s' (map g xs))"
  using assms(1) by (induction xs arbitrary: s s') (simp_all add: assms(2))

lemma functionName_rename [simp]: "functionName (renameCallable r f) = functionName f"
  by (simp add: functionName_def renameCallable_def)

lemma getName_rename [simp]: "c_getName (renameCallable r f) = c_getName f"
  by (simp add: renameCallable_def)

lemma addInitializer_rename:
  assumes "inj r" "renamed r st st'" "sf_filePath sf' = sf_filePath sf"
  shows "renamed r (addInitializer sf name cn role init st)
           (addInitializer sf' name cn role (map_option (renameInitializer r) init) st')"
proof (cases init)
  case None
  then show ?thesis using assms(2) by (simp add: addInitializer_def)
next
  case (Some i)
  then show ?thesis using assms(2) addCallable_rename [OF assms]
    by (cases i) (simp_all add: addInitializer_def)
qed

lemma getClassRole_rename:
  "sf_baseName sf' = sf_baseName sf \<Longrightarrow> getClassRole (renameClass r cls) sf' = getClassRole cls sf"
  by (simp add: getClassRole_def decoratorNames_def renameClass_def renameDecorator_def comp_def)

lemma addClass_rename:
  assumes "inj r" "renamed r st st'" "sf_filePath sf' = sf_filePath sf" "sf_baseName sf' = sf_baseName sf"
  shows "renamed r (addClass sf st cls) (addClass sf' st' (renameClass r cls))"
proof -
  let ?role = "getClassRole cls sf"
  have m: "renamed r
      (foldl (\<lambda>s m. addCallable sf m (c_getName m) (cls_name cls) ?role s) st (cls_methods cls))
      (foldl (\<lambda>s m. addCallable sf' m (c_getName m) (cls_name cls) ?role s) st'
             (map (renameCallable r) (cls_methods cls)))"
    by (rule foldl_rel [where R = "renamed r", OF assms(2)])
       (simp add: addCallable_rename [OF assms(1) _ assms(3)])
  have p: "renamed r
      (foldl (\<lambda>s prop. addInitializer sf (prop_name prop) (cls_name cls) ?role (prop_initializer prop) s)
         (foldl (\<lambda>s m. addCallable sf m (c_getName m) (cls_name cls) ?role s) st (cls_methods cls))
         (cls_properties cls))
      (foldl (\<lambda>s prop. addInitializer sf' (prop_name prop) (cls_name cls) ?role (prop_initializer prop) s)
         (foldl (\<lambda>s m. addCallable sf' m (c_getName m) (cls_name cls) ?role s) st'
             (map (renameCallable r) (cls_methods cls)))
         (map (\<lambda>p. p\<lparr> prop_initializer := map_option (renameInitializer r) (prop_initializer p) \<rparr>)
              (cls_properties cls)))"
    by (rule foldl_rel [where R = "renamed r", OF m])
       (simp add: addInitializer_rename [OF assms(1) _ assms(3)])
  show ?thesis
    using p unfolding addClass_def Let_def getClassRole_rename [OF assms(4)]
    by (simp add: renameClass_def)
qed

lemma collectFile_rename:
  assumes "inj r" "renamed r st st'"
  shows "renamed r (collectFile sf st) (collectFile (renameFile r sf) st')"
proof -
  have fp: "sf_filePath (renameFile r sf) = sf_filePath sf"
    and bn: "sf_baseName (renameFile r sf) = sf_baseName sf"
    by (simp_all add: renameFile_def)
  have f: "renamed r (foldl (addFunction sf) st (sf_functions sf))
      (foldl (addFunction (renameFile r sf)) st' (map (renameCallable r) (sf_functions sf)))"
    by (rule foldl_rel [where R = "renamed r", OF assms(2)])
       (simp add: addFunction_def addCallable_rename [OF assms(1) _ fp])
  have c: "renamed r
      (foldl (addClass sf) (foldl (addFunction sf) st (sf_functions sf)) (sf_classes sf))
      (foldl (addClass (renameFile r sf))
         (foldl (addFunction (renameFile r sf)) st' (map (renameCallable r) (sf_functions sf)))
         (map (renameClass r) (sf_classes sf)))"
    by (rule foldl_rel [where R = "renamed r", OF f])
       (simp add: addClass_rename [OF assms(1) _ fp bn])
  have v: "renamed r
      (foldl (addVariable sf)
         (foldl (addClass sf) (foldl (addFunction sf) st (sf_functions sf)) (sf_classes sf))
         (sf_variableDeclarations sf))
      (foldl (addVariable (renameFile r sf))
         (foldl (addClass (renameFile r sf))
            (foldl (addFunction (renameFile r sf)) st' (map (renameCallable r) (sf_functions sf)))
            (map (renameClass r) (sf_classes sf)))
         (map (\<lambda>v. v\<lparr> v_initializer := map_option (renameInitializer r) (v_initializer v) \<rparr>)
              (sf_variableDeclarations sf)))"
    by (rule foldl_rel [where R = "renamed r", OF c])
       (simp add: addVariable_def addInitializer_rename [OF assms(1) _ fp])
  show ?thesis using v unfolding collectFile_def by (simp add: renameFile_def)
qed

lemma collectCallables_rename:
  assumes "inj r"
  shows "renamed r (collectCallables project filePaths) (collectCallables (renameProject r project) filePaths)"
proof -
  have "renamed r
     (foldl (\<lambda>st filePath. case project filePath of None \<Rightarrow> st | Some sf \<Rightarrow> collectFile sf st)
       \<lparr> callables = [], callablesByDecl = Map.empty \<rparr> filePaths)
     (foldl (\<lambda>st filePath. case renameProject r project filePath of None \<Rightarrow> st
                            | Some sf \<Rightarrow> collectFile sf st)
       \<lparr> callables = [], callablesByDecl = Map.empty \<rparr> (map (\<lambda>p. p) filePaths))"
  proof (rule foldl_rel [where R = "renamed r"])
    show "renamed r \<lparr> callables = [], callablesByDecl = Map.empty \<rparr>
            \<lparr> callables = [], callablesByDecl = Map.empty \<rparr>"
      by (simp add: renamed_def)
  next
    fix s s' x assume "renamed r s s'"
    then show "renamed r (case project x of None \<Rightarrow> s | Some sf \<Rightarrow> collectFile sf s)
        (case renameProject r project x of None \<Rightarrow> s' | Some sf \<Rightarrow> collectFile sf s')"
      by (cases "project x") (simp_all add: renameProject_def collectFile_rename [OF assms])
  qed
  then show ?thesis unfolding collectCallables_def by simp
qed

lemma unwrapAlias_rename: "unwrapAlias (renameSymbol r s) = renameSymbol r (unwrapAlias s)"
  by (cases s) (simp add: unwrapAlias_def split: option.splits)

lemma getDeclarations_rename:
  "getDeclarations (renameSymbol r s) = map (renameDecl r) (getDeclarations s)"
  by (cases s) simp

lemma callSymbol_rename: "callSymbol (renameCall r c) = map_option (renameSymbol r) (callSymbol c)"
  by (cases c) (simp_all split: option.splits)

lemma matchCallable_rename:
  assumes "\<forall>i. byDecl' (r i) = map_option (renameInfo r) (byDecl i)"
  shows "matchCallableFromDecl byDecl' (renameDecl r d)
         = map_option (renameInfo r) (matchCallableFromDecl byDecl d)"
  using assms by (cases d) (simp add: matchCallableFromDecl_def)

lemma firstCallee_rename:
  assumes "\<forall>i. byDecl' (r i) = map_option (renameInfo r) (byDecl i)"
  shows "firstCallee byDecl' (map (renameDecl r) ds) = map_option (renameInfo r) (firstCallee byDecl ds)"
proof (induction ds)
  case Nil
  show ?case by simp
next
  case (Cons d ds)
  show ?case
    by (cases "matchCallableFromDecl byDecl d")
       (simp_all add: matchCallable_rename [OF assms] Cons.IH)
qed

lemma renameInfo_fields [simp]:
  "ci_id (renameInfo r c) = ci_id c" "ci_filePath (renameInfo r c) = ci_filePath c"
  "ci_decl (renameInfo r c) = renameCallable r (ci_decl c)"
  by (simp_all add: renameInfo_def)

lemma callEdge_rename:
  assumes "\<forall>i. byDecl' (r i) = map_option (renameInfo r) (byDecl i)"
  shows "callEdge byDecl' (renameInfo r caller) (renameCall r call) = callEdge byDecl caller call"
proof (cases "callSymbol call")
  case None
  then show ?thesis by (simp add: callEdge_def callSymbol_rename)
next
  case (Some s)
  show ?thesis
    by (cases "firstCallee byDecl (getDeclarations (unwrapAlias s))")
       (simp_all add: callEdge_def callSymbol_rename Some unwrapAlias_rename getDeclarations_rename
          firstCallee_rename [OF assms])
qed

lemma map_filter_map: "List.map_filter f (map g xs) = List.map_filter (\<lambda>x. f (g x)) xs"
  by (induction xs) (simp_all split: option.splits)

lemma callEdges_rename:
  assumes "renamed r st st'"
  shows "callEdges st' = callEdges st"
proof -
  have by': "\<forall>i. callablesByDecl st' (r i) = map_option (renameInfo r) (callablesByDecl st i)"
    and cs: "callables st' = map (renameInfo r) (callables st)"
    using assms unfolding renamed_def by simp_all
  have "List.map_filter (callEdge (callablesByDecl st') (renameInfo r caller))
          (c_callExpressions (ci_decl (renameInfo r caller)))
        = List.map_filter (callEdge (callablesByDecl st) caller) (c_callExpressions (ci_decl caller))"
    for caller
    by (simp add: renameCallable_def map_filter_map callEdge_rename [OF by'])
  then show ?thesis unfolding callEdges_def cs by (simp add: comp_def)
qed

lemma nodeOf_rename [simp]: "nodeOf (renameInfo r c) = nodeOf c"
  by (simp add: nodeOf_def renameInfo_def)

lemma directory_rename:
  assumes "inj r"
  shows "analyzeDirectoryGraph (renameProject r project) filePaths = analyzeDirectoryGraph project filePaths"
proof -
  note rel = collectCallables_rename [OF assms, of project filePaths]
  have "callables (collectCallables (renameProject r project) filePaths)
        = map (renameInfo r) (callables (collectCallables project filePaths))"
    using rel unfolding renamed_def by simp
  then show ?thesis
    unfolding analyzeDirectoryGraph_def Let_def callEdges_rename [OF rel]
    by (simp add: comp_def)
qed

lemma classOf_rename [simp]: "classOf (renameDecl r d) = classOf d"
  by (cases d) simp

lemma classesOfSymbol_rename [simp]:
  "classesOfSymbol (map_option (renameSymbol r) s) = classesOfSymbol s"
  by (cases s)
     (simp_all add: classesOfSymbol_def unwrapAlias_rename getDeclarations_rename map_filter_map)

lemma elementClasses_rename [simp]: "elementClasses (renameElement r e) = elementClasses e"
  by (cases e) simp_all

lemma collectClasses_rename [simp]: "collectClasses (renameExpression r e) = collectClasses e"
  by (cases e) (simp_all add: comp_def)

lemma readProperty_rename [simp]: "readProperty info (renameProperty r p) = readProperty info p"
  by (cases "(info, p)" rule: readProperty.cases) (simp_all add: Let_def)

lemma foldl_readProperty_rename:
  "foldl readProperty info (map (renameProperty r) ps) = foldl readProperty info ps"
  by (induction ps arbitrary: info) simp_all

lemma find_decorator_rename:
  "find (\<lambda>d. d_name d = n) (map (renameDecorator r) ds)
   = map_option (renameDecorator r) (find (\<lambda>d. d_name d = n) ds)"
  by (induction ds) (simp_all add: renameDecorator_def)

lemma moduleInfoOf_rename:
  "sf_filePath sf' = sf_filePath sf \<Longrightarrow>
   moduleInfoOf sf' (renameClass r cls) = moduleInfoOf sf cls"
proof -
  assume fp: "sf_filePath sf' = sf_filePath sf"
  have n: "cls_name (renameClass r cls) = cls_name cls"
    and d: "cls_decorators (renameClass r cls) = map (renameDecorator r) (cls_decorators cls)"
    by (simp_all add: renameClass_def)
  show ?thesis
  proof (cases "find (\<lambda>d. d_name d = ''Module'') (cls_decorators cls)")
    case None
    then show ?thesis by (simp add: moduleInfoOf_def n d fp find_decorator_rename Let_def)
  next
    case (Some deco)
    show ?thesis
    proof (cases "d_arg0 deco")
      case None
      then show ?thesis
        by (simp add: moduleInfoOf_def n d fp find_decorator_rename Some Let_def renameDecorator_def)
    next
      case (Some arg)
      then show ?thesis using \<open>find (\<lambda>d. d_name d = ''Module'') (cls_decorators cls) = Some deco\<close>
        by (cases arg; cases "arg_objectLiteral arg")
           (simp_all add: moduleInfoOf_def n d fp find_decorator_rename Let_def renameDecorator_def
              foldl_readProperty_rename)
    qed
  qed
qed

lemma isModuleClass_rename:
  "sf_baseName sf' = sf_baseName sf \<Longrightarrow> isModuleClass sf' (renameClass r cls) = isModuleClass sf cls"
  by (simp add: isModuleClass_def renameClass_def find_decorator_rename)

lemma scanClass_rename:
  "scanClass (renameFile r sf) st (renameClass r cls) = scanClass sf st cls"
proof -
  have fp: "sf_filePath (renameFile r sf) = sf_filePath sf"
    and bn: "sf_baseName (renameFile r sf) = sf_baseName sf"
    by (simp_all add: renameFile_def)
  show ?thesis
    by (simp add: scanClass_def isModuleClass_rename [OF bn] moduleInfoOf_rename [OF fp] fp)
qed

lemma scanModules_rename:
  "scanModules (renameProject r project) filePaths = scanModules project filePaths"
proof -
  have "(case renameProject r project p of None \<Rightarrow> st
          | Some sf \<Rightarrow> foldl (scanClass sf) st (sf_classes sf))
        = (case project p of None \<Rightarrow> st
          | Some sf \<Rightarrow> foldl (scanClass sf) st (sf_classes sf))" for st p
  proof (cases "project p")
    case None
    then show ?thesis by (simp add: renameProject_def)
  next
    case (Some sf)
    have "foldl (scanClass (renameFile r sf)) st (map (renameClass r) (sf_classes sf))
          = foldl (scanClass sf) st (sf_classes sf)"
      by (simp add: foldl_map scanClass_rename)
    then show ?thesis using Some by (simp add: renameProject_def renameFile_def)
  qed
  then show ?thesis unfolding scanModules_def by simp
qed

lemma firstClass_rename [simp]: "firstClass (map_option (renameSymbol r) s) = firstClass s"
  by (simp add: firstClass_def)

lemma arg_symbol_rename [simp]: "arg_symbol (renameArg r a) = map_option (renameSymbol r) (arg_symbol a)"
  by (cases a) simp

lemma injectTarget_rename [simp]: "injectTarget (renameParameter r p) = injectTarget p"
proof (cases "find (\<lambda>d. d_name d = ''Inject'') (p_decorators p)")
  case None
  then show ?thesis by (simp add: injectTarget_def renameParameter_def find_decorator_rename)
next
  case (Some deco)
  then show ?thesis
    by (cases "d_arg0 deco")
       (simp_all add: injectTarget_def renameParameter_def find_decorator_rename renameDecorator_def)
qed

lemma targetClass_rename [simp]: "targetClass (renameParameter r p) = targetClass p"
proof -
  have "firstClass (p_typeSymbol (renameParameter r p)) = firstClass (p_typeSymbol p)"
    by (simp add: renameParameter_def)
  then show ?thesis by (simp add: targetClass_def split: option.splits)
qed

lemma injectionEdge_rename [simp]:
  "injectionEdge byId i (renameParameter r p) = injectionEdge byId i p"
  by (simp add: injectionEdge_def)

lemma injectionEdgesOf_rename:
  "injectionEdgesOf byId (i, renameClass r cls) = injectionEdgesOf byId (i, cls)"
  by (cases "cls_constructors cls")
     (simp_all add: injectionEdgesOf_def renameClass_def map_filter_map)

lemma findClass_rename:
  "findClass (renameProject r project) n = map_option (renameClass r) (findClass project n)"
proof (cases "project (gn_filePath n)")
  case None
  then show ?thesis by (simp add: findClass_def renameProject_def)
next
  case (Some sf)
  have "(\<lambda>c. hashedId (sf_filePath sf) (nameOr ''<Class>'' (cls_name c)) = gn_id n) \<circ> renameClass r
        = (\<lambda>c. hashedId (sf_filePath sf) (nameOr ''<Class>'' (cls_name c)) = gn_id n)"
    by (rule ext) (simp add: renameClass_def)
  then show ?thesis using Some
    by (simp add: findClass_def renameProject_def renameFile_def find_map_comp)
qed

lemma classDeclsById_rename:
  "classDeclsById (renameProject r project) ns
   = map (\<lambda>kv. (fst kv, renameClass r (snd kv))) (classDeclsById project ns)"
proof -
  have "foldl (\<lambda>m n.
              if (gn_role n = Some RController \<or> gn_role n = Some RService
                  \<or> gn_role n = Some RProvider) \<and> gn_kind n = ClassDeclaration
              then (case findClass (renameProject r project) n of
                      None \<Rightarrow> m
                    | Some cls \<Rightarrow> AList.update (gn_id n) cls m)
              else m) (map (\<lambda>kv. (fst kv, renameClass r (snd kv))) acc) ns
   = map (\<lambda>kv. (fst kv, renameClass r (snd kv)))
      (foldl (\<lambda>m n.
              if (gn_role n = Some RController \<or> gn_role n = Some RService
                  \<or> gn_role n = Some RProvider) \<and> gn_kind n = ClassDeclaration
              then (case findClass project n of
                      None \<Rightarrow> m
                    | Some cls \<Rightarrow> AList.update (gn_id n) cls m)
              else m) acc ns)" for acc
  proof (induction ns arbitrary: acc)
    case Nil
    show ?case by simp
  next
    case (Cons n ns)
    show ?case
    proof (cases "findClass project n")
      case None
      then show ?thesis using Cons.IH [of acc] by (simp add: findClass_rename)
    next
      case (Some cls)
      then show ?thesis
        using Cons.IH [of acc] Cons.IH [of "AList.update (gn_id n) cls acc"]
        by (simp add: findClass_rename update_map_values)
    qed
  qed
  from this [of "[]"] show ?thesis unfolding classDeclsById_def by simp
qed

lemma injectionEdges_rename:
  "injectionEdges (renameProject r project) st = injectionEdges project st"
proof -
  have "injectionEdgesOf (w_byId st) (fst kv, renameClass r (snd kv))
        = injectionEdgesOf (w_byId st) kv" for kv
    using injectionEdgesOf_rename [of "w_byId st" "fst kv" r "snd kv"] by simp
  then show ?thesis
    unfolding injectionEdges_def classDeclsById_rename by (simp add: comp_def)
qed

lemma wiring_rename:
  "analyzeWiringGraph (renameProject r project) filePaths = analyzeWiringGraph project filePaths"
  by (simp add: analyzeWiringGraph_def scanModules_rename injectionEdges_rename)

lemma moduleNodes_rename: "moduleNodes (renameFile r sf) = moduleNodes sf"
proof -
  have "hasModuleDecorator (renameClass r c) = hasModuleDecorator c" for c
    by (simp add: hasModuleDecorator_def renameClass_def list_ex_iff renameDecorator_def)
  moreover have "cls_name (renameClass r c) = cls_name c" for c by (simp add: renameClass_def)
  ultimately show ?thesis
    by (simp add: moduleNodes_def renameFile_def filter_map comp_def)
qed

lemma modules_rename:
  "analyzeDirectoryModules (renameProject r project) filePaths = analyzeDirectoryModules project filePaths"
proof -
  have "(case renameProject r project p of None \<Rightarrow> [] | Some sf \<Rightarrow> moduleNodes sf)
        = (case project p of None \<Rightarrow> [] | Some sf \<Rightarrow> moduleNodes sf)" for p
    by (cases "project p") (simp_all add: renameProject_def moduleNodes_rename)
  then show ?thesis unfolding analyzeDirectoryModules_def by simp
qed

section \<open>The claims\<close>

text \<open>
  Claim C10 (edge-endpoint closure).  In the graph returned by \<open>analyzeDirectoryGraph\<close> and
  in the graph returned by \<open>analyzeWiringGraph\<close>, the \<open>from\<close> id and the \<open>to\<close> id of every
  edge are ids of nodes of the returned \<open>nodes\<close> array.
\<close>

theorem edge_endpoints_are_nodes:
  "edgesClosed (analyzeDirectoryGraph project filePaths)
   \<and> edgesClosed (analyzeWiringGraph project filePaths)"
proof
  show "edgesClosed (analyzeDirectoryGraph project filePaths)"
    by (rule directory_closed)
  show "edgesClosed (analyzeWiringGraph project filePaths)"
    by (rule wiring_closed)
qed

text \<open>
  Claim C2 (cross-file flag), as stated, fails.  The file \<open>/src/a.ts\<close> holds a function
  \<open>helper\<close> and a class \<open>C\<close> whose private property \<open>#m\<close> is an arrow function calling
  \<open>helper\<close>; the file \<open>/src/a.ts#C.\<close> holds \<open>const m = () => {}\<close>.  Both arrow functions get
  the id \<open>/src/a.ts#C.#m::h\<close>.  The edge from \<open>#m\<close> to \<open>helper\<close> is flagged same-file, but the
  node that survives under its \<open>from\<close> id is the one of the second file.
\<close>

theorem crossFile_flag_counterexample:
  "\<not> crossFileCorrect (analyzeDirectoryGraph collidingFiles collidingPaths)"
  by (simp add: crossFileCorrect_def collidingFiles_def collidingPaths_def mkArrow_def
        example_defs collect_defs graph_defs)

text \<open>
  Claim C2, amended.  Whenever the ids handed out in a run determine the file path (no two
  declarations with the same id lie in files with different paths), every edge of the
  returned graph has both endpoint nodes in the graph and its \<open>crossFile\<close> flag equals
  whether the simplified file paths of these two nodes differ.  This holds for the call
  graph and for the wiring graph, and ids determine paths whenever no file path holds the
  separator \<open>#\<close>.
\<close>

theorem crossFile_flag_correct:
  "(singleValued (callableIdPaths project filePaths)
      \<longrightarrow> crossFileCorrect (analyzeDirectoryGraph project filePaths))
   \<and> (singleValued (wiringIdPaths (scanModules project filePaths))
      \<longrightarrow> crossFileCorrect (analyzeWiringGraph project filePaths))
   \<and> (hashFreePaths (callableIdPaths project filePaths)
      \<longrightarrow> crossFileCorrect (analyzeDirectoryGraph project filePaths))
   \<and> (hashFreePaths (wiringIdPaths (scanModules project filePaths))
      \<longrightarrow> crossFileCorrect (analyzeWiringGraph project filePaths))"
proof (intro conjI impI)
  assume "singleValued (callableIdPaths project filePaths)"
  then show "crossFileCorrect (analyzeDirectoryGraph project filePaths)"
    by (rule directory_crossFile)
next
  assume "singleValued (wiringIdPaths (scanModules project filePaths))"
  then show "crossFileCorrect (analyzeWiringGraph project filePaths)"
    by (rule wiring_crossFile)
next
  assume "hashFreePaths (callableIdPaths project filePaths)"
  then have "singleValued (callableIdPaths project filePaths)"
    using hash_free_paths_suffice by blast
  then show "crossFileCorrect (analyzeDirectoryGraph project filePaths)"
    by (rule directory_crossFile)
next
  assume "hashFreePaths (wiringIdPaths (scanModules project filePaths))"
  then have "singleValued (wiringIdPaths (scanModules project filePaths))"
    using hash_free_paths_suffice by blast
  then show "crossFileCorrect (analyzeWiringGraph project filePaths)"
    by (rule wiring_crossFile)
qed

theorem crossFile_flag_correct_witness:
  "singleValued (callableIdPaths twoFiles twoFilesPaths)
   \<and> hashFreePaths (callableIdPaths twoFiles twoFilesPaths)
   \<and> crossFileCorrect (analyzeDirectoryGraph twoFiles twoFilesPaths)
   \<and> singleValued (wiringIdPaths (scanModules nestApp nestAppPaths))
   \<and> hashFreePaths (wiringIdPaths (scanModules nestApp nestAppPaths))
   \<and> crossFileCorrect (analyzeWiringGraph nestApp nestAppPaths)"
proof -
  have a: "singleValued (callableIdPaths twoFiles twoFilesPaths)"
    by (simp add: twoFiles_def twoFilesPaths_def collect_defs singleValued_def callableIdPaths_def)
  have a': "hashFreePaths (callableIdPaths twoFiles twoFilesPaths)"
    by (simp add: twoFiles_def twoFilesPaths_def collect_defs hashFreePaths_def callableIdPaths_def)
  have b: "singleValued (wiringIdPaths (scanModules nestApp nestAppPaths))"
    by (rule nestApp_sv)
  have b': "hashFreePaths (wiringIdPaths (scanModules nestApp nestAppPaths))"
    by (simp add: wiringIdPaths_def moduleIdPaths_def nestApp_scan hashFreePaths_def example_defs)
  show ?thesis
    using a a' b b' crossFile_flag_correct [of twoFiles twoFilesPaths]
      crossFile_flag_correct [of nestApp nestAppPaths]
    by simp
qed

text \<open>
  Claim C1 (no self-loops) holds for the call graph, which compares the two ids before it
  records an edge, but not for the wiring graph, which records containment, import and
  injection edges unguarded.  A module that lists itself under \<open>imports\<close> and a provider
  whose constructor takes a parameter of its own class give two edges with \<open>from = to\<close>.
\<close>

theorem wiring_graph_self_loops:
  "edges (analyzeWiringGraph selfWired selfWiredPaths) =
     [\<lparr> e_from = ''/src/app.module.ts#AppModule::'' @ shortHash ''AppModule'',
        e_to = ''/src/node.service.ts#NodeService::'' @ shortHash ''NodeService'',
        e_crossFile = True \<rparr>,
      \<lparr> e_from = ''/src/app.module.ts#AppModule::'' @ shortHash ''AppModule'',
        e_to = ''/src/app.module.ts#AppModule::'' @ shortHash ''AppModule'',
        e_crossFile = False \<rparr>,
      \<lparr> e_from = ''/src/node.service.ts#NodeService::'' @ shortHash ''NodeService'',
        e_to = ''/src/node.service.ts#NodeService::'' @ shortHash ''NodeService'',
        e_crossFile = False \<rparr>]"
  by (simp add: analyzeWiringGraph_def selfWired_def selfWiredPaths_def nodeService_def appModule_def
       scan_defs example_defs wire_defs
       inject_defs uniqueEdges_def mapFromEntries_def edgeKey_def simplifyPath_def)

text \<open>
  Claim C3 (every collected callable gets a distinct id) fails in the code.  The file
  \<open>/src/factory.ts\<close> holds \<open>class Factory { static create() {} create() {} }\<close>.  The
  collector finds two callables, the declarations 1 and 2, and hands both the id
  \<open>/src/factory.ts#Factory.create::\<close> followed by the short hash of the signature key
  \<open>create()\<close>: the ids are not distinct, and the returned graph has one node for the two
  methods.  The signature key is built, as the source says, to avoid collisions; it holds
  the name and the parameter types only.
\<close>

theorem callable_ids_not_distinct:
  "map ci_id (callables (collectCallables staticAndInstance [''/src/factory.ts'']))
     = [''/src/factory.ts#Factory.create::'' @ shortHash ''create()'',
        ''/src/factory.ts#Factory.create::'' @ shortHash ''create()'']
   \<and> map (c_ident \<circ> ci_decl) (callables (collectCallables staticAndInstance [''/src/factory.ts'']))
     = [1, 2]
   \<and> \<not> distinct (map ci_id (callables (collectCallables staticAndInstance [''/src/factory.ts''])))
   \<and> map gn_id (nodes (analyzeDirectoryGraph staticAndInstance [''/src/factory.ts'']))
     = [''/src/factory.ts#Factory.create::'' @ shortHash ''create()'']"
  by (simp add: staticAndInstance_def plainClass_def example_defs collect_defs
        analyzeDirectoryGraph_def uniqueNodes_def mapFromEntries_def nodeOf_def)

text \<open>
  Claim C4 (role priority), as stated, fails.  \<open>specClassRole\<close> reads the claim: decorators
  first, then name suffixes, then the file name.  A class \<open>UsersService\<close> decorated
  \<open>@Injectable()\<close> in a file \<open>users.module.ts\<close> is a service by its decorator (and by its
  name), yet \<open>getClassRole\<close> answers \<open>module\<close>, because the file-name test belongs to the
  first rule.  A class \<open>CacheController\<close> decorated \<open>@Injectable()\<close> is a service by its
  decorator, yet \<open>getClassRole\<close> answers \<open>controller\<close>: the name suffix of the earlier
  role wins over the decorator of the later one.
\<close>

theorem getClassRole_not_decorator_first:
  "getClassRole usersServiceClass usersModuleFile = Some RModule
   \<and> specClassRole usersServiceClass usersModuleFile = Some RService
   \<and> getClassRole cacheControllerClass cacheFile = Some RController
   \<and> specClassRole cacheControllerClass cacheFile = Some RService"
  by (simp add: getClassRole_def specClassRole_def usersServiceClass_def usersModuleFile_def
        cacheControllerClass_def cacheFile_def
        decoratorNames_def className_def plainDecorator_def endsWithI_def canonicalize_def Let_def)

text \<open>
  Claim C4, amended.  \<open>getClassRole\<close> tries four rules in the fixed order module,
  controller, service, provider, and the first rule that matches decides.  The module rule
  matches on a decorator \<open>Module\<close>, a class name ending in \<open>Module\<close> or a file base name
  containing \<open>.module.\<close>; the controller rule on a decorator \<open>Controller\<close> or a name ending in
  \<open>Controller\<close>; the service rule on a decorator \<open>Injectable\<close> or a name ending in
  \<open>Service\<close>; the provider rule on a name ending in \<open>Provider\<close> (name tests ignore case).
  Otherwise the role is undefined.  Priority is by role, not by kind of evidence.
\<close>

theorem getClassRole_role_priority:
  "(getClassRole cls sf = Some RModule \<longleftrightarrow> moduleRule cls sf)
   \<and> (getClassRole cls sf = Some RController \<longleftrightarrow> \<not> moduleRule cls sf \<and> controllerRule cls)
   \<and> (getClassRole cls sf = Some RService \<longleftrightarrow>
        \<not> moduleRule cls sf \<and> \<not> controllerRule cls \<and> serviceRule cls)
   \<and> (getClassRole cls sf = Some RProvider \<longleftrightarrow>
        \<not> moduleRule cls sf \<and> \<not> controllerRule cls \<and> \<not> serviceRule cls \<and> providerRule cls)
   \<and> (getClassRole cls sf = None \<longleftrightarrow>
        \<not> moduleRule cls sf \<and> \<not> controllerRule cls \<and> \<not> serviceRule cls \<and> \<not> providerRule cls)"
  by (simp add: getClassRole_def className_def moduleRule_def controllerRule_def serviceRule_def
        providerRule_def Let_def)

theorem getClassRole_role_priority_witness:
  "moduleRule usersServiceClass usersModuleFile \<and> serviceRule usersServiceClass
   \<and> getClassRole usersServiceClass usersModuleFile = Some RModule"
proof -
  have "moduleRule usersServiceClass usersModuleFile"
    by (simp add: moduleRule_def usersServiceClass_def usersModuleFile_def decoratorNames_def
          className_def plainDecorator_def endsWithI_def canonicalize_def)
  moreover have "serviceRule usersServiceClass"
    by (simp add: serviceRule_def usersServiceClass_def decoratorNames_def plainDecorator_def)
  ultimately show ?thesis
    using getClassRole_role_priority [of usersServiceClass usersModuleFile] by simp
qed

text \<open>
  Claim C6 (edges are de-duplicated by the ordered pair \<open>(from, to)\<close>), as stated, fails.
  The code keys the edges by the string \<open>from|to\<close>.  The raw edges \<open>a|b \<rightarrow> c\<close> and
  \<open>a \<rightarrow> b|c\<close> are two ordered pairs with the one key \<open>a|b|c\<close>: the code keeps the second
  edge only, so the pair \<open>(a|b, c)\<close> is lost, while de-duplication by pair keeps both.
\<close>

theorem edge_dedup_not_by_pair:
  "uniqueEdges barEdges = [\<lparr> e_from = ''a'', e_to = ''b|c'', e_crossFile = True \<rparr>]
   \<and> uniqueEdgesByPair barEdges = barEdges
   \<and> (''a|b'', ''c'') \<in> edgePair ` set barEdges
   \<and> (''a|b'', ''c'') \<notin> edgePair ` set (uniqueEdges barEdges)"
  by (simp add: barEdges_def uniqueEdges_def uniqueEdgesByPair_def mapFromEntries_def edgeKey_def
        edgePair_def)

text \<open>
  Claim C6, amended.  Assembly keeps one node per id and one edge per key \<open>from|to\<close>
  (so never two edges with the same ordered pair); every id and every key of the raw lists
  is still represented; the survivor for an id or a key is the last raw entry carrying it;
  and de-duplicating a second time changes nothing, for any raw lists.  Whenever raw edges
  with the same key have the same pair, as they do when no source id holds the character
  \<open>|\<close>, this is de-duplication by the ordered pair: the result is the one the
  specification describes, every raw pair is represented, and the survivor for a pair is
  the last raw edge carrying it.
\<close>

theorem dedup_by_edge_key:
  "uniqueNodes (uniqueNodes ns) = uniqueNodes ns
   \<and> uniqueEdges (uniqueEdges es) = uniqueEdges es
   \<and> distinct (map gn_id (uniqueNodes ns))
   \<and> distinct (map edgeKey (uniqueEdges es))
   \<and> distinct (map edgePair (uniqueEdges es))
   \<and> gn_id ` set (uniqueNodes ns) = gn_id ` set ns
   \<and> edgeKey ` set (uniqueEdges es) = edgeKey ` set es
   \<and> find (\<lambda>n. gn_id n = i) (uniqueNodes ns) = find (\<lambda>n. gn_id n = i) (rev ns)
   \<and> find (\<lambda>e. edgeKey e = k) (uniqueEdges es) = find (\<lambda>e. edgeKey e = k) (rev es)
   \<and> (barFree es \<longrightarrow> keysTellPairs es)
   \<and> (keysTellPairs es \<longrightarrow>
        uniqueEdges es = uniqueEdgesByPair es
        \<and> edgePair ` set (uniqueEdges es) = edgePair ` set es
        \<and> find (\<lambda>e. edgePair e = pr) (uniqueEdges es) = find (\<lambda>e. edgePair e = pr) (rev es))"
proof -
  have a: "barFree es \<longrightarrow> keysTellPairs es"
    by (rule impI) (rule barFree_keysTellPairs)
  have b: "keysTellPairs es \<longrightarrow>
        uniqueEdges es = uniqueEdgesByPair es
        \<and> edgePair ` set (uniqueEdges es) = edgePair ` set es
        \<and> find (\<lambda>e. edgePair e = pr) (uniqueEdges es) = find (\<lambda>e. edgePair e = pr) (rev es)"
    by (rule impI) (rule dedup_by_pair)
  from dedup_always [of ns es i k] a b show ?thesis by (simp only: simp_thms)
qed

theorem dedup_by_edge_key_witness:
  "barFree callSites \<and> keysTellPairs callSites
   \<and> uniqueEdges callSites
       = [\<lparr> e_from = ''/src/b.ts#run'', e_to = ''/src/a.ts#util'', e_crossFile = True \<rparr>,
          \<lparr> e_from = ''/src/a.ts#util'', e_to = ''/src/b.ts#run'', e_crossFile = True \<rparr>]
   \<and> uniqueEdges callSites = uniqueEdgesByPair callSites
   \<and> edgePair ` set (uniqueEdges callSites) = edgePair ` set callSites"
proof -
  have a: "barFree callSites" by (simp add: barFree_def callSites_def)
  have b: "uniqueEdges callSites
       = [\<lparr> e_from = ''/src/b.ts#run'', e_to = ''/src/a.ts#util'', e_crossFile = True \<rparr>,
          \<lparr> e_from = ''/src/a.ts#util'', e_to = ''/src/b.ts#run'', e_crossFile = True \<rparr>]"
    by (simp add: callSites_def uniqueEdges_def mapFromEntries_def edgeKey_def)
  have "keysTellPairs callSites
        \<and> uniqueEdges callSites = uniqueEdgesByPair callSites
        \<and> edgePair ` set (uniqueEdges callSites) = edgePair ` set callSites"
    using dedup_by_edge_key [of "[]" callSites "[]" "[]" "([], [])"] a by blast
  with a b show ?thesis by blast
qed






text \<open>
  Claim C9 (empty input).  On a project without source files each of the three entry points
  returns the graph without nodes and edges, whatever paths are listed (so also for the
  empty list); the model has no failing branch.  A listed path without a source file
  contributes nothing: removing such paths from the list does not change any result.
\<close>

theorem empty_input_and_missing_files:
  "analyzeDirectoryGraph Map.empty filePaths = emptyGraph
   \<and> analyzeWiringGraph Map.empty filePaths = emptyGraph
   \<and> analyzeDirectoryModules Map.empty filePaths = emptyGraph
   \<and> analyzeDirectoryGraph project (present project filePaths) = analyzeDirectoryGraph project filePaths
   \<and> analyzeWiringGraph project (present project filePaths) = analyzeWiringGraph project filePaths
   \<and> analyzeDirectoryModules project (present project filePaths) = analyzeDirectoryModules project filePaths"
proof -
  have 1: "analyzeDirectoryGraph Map.empty filePaths = emptyGraph"
    by (simp add: analyzeDirectoryGraph_def collect_empty callEdges_def emptyGraph_def)
  have 2: "analyzeWiringGraph Map.empty filePaths = emptyGraph"
    by (simp add: analyzeWiringGraph_def scan_empty wireModules_def injectionEdges_def
          classDeclsById_def emptyGraph_def)
  have 3: "analyzeDirectoryModules Map.empty filePaths = emptyGraph"
    by (simp add: analyzeDirectoryModules_def emptyGraph_def concat_map_Nil)
  have 4: "analyzeDirectoryGraph project (present project filePaths) = analyzeDirectoryGraph project filePaths"
    by (simp add: analyzeDirectoryGraph_def collectCallables_present)
  have 5: "analyzeWiringGraph project (present project filePaths) = analyzeWiringGraph project filePaths"
    by (simp add: analyzeWiringGraph_def scanModules_present)
  have 6: "analyzeDirectoryModules project (present project filePaths) = analyzeDirectoryModules project filePaths"
    by (simp add: analyzeDirectoryModules_def moduleNodes_present)
  from 1 2 3 4 5 6 show ?thesis by simp
qed

text \<open>
  Claim C5 (determinism).  Each entry point is a function of the parsed project and the
  path list.  What differs between two runs over the same file texts is the identity of
  the syntax-tree node objects, which the call graph uses as map keys.  For every
  injective renaming of node identities the three results are the same graphs, node for
  node and edge for edge; the identity renaming is the repeated run on one project.
\<close>

theorem analysis_deterministic:
  "inj r \<longrightarrow>
     analyzeDirectoryGraph (renameProject r project) filePaths
       = analyzeDirectoryGraph project filePaths
     \<and> analyzeWiringGraph (renameProject r project) filePaths
         = analyzeWiringGraph project filePaths
     \<and> analyzeDirectoryModules (renameProject r project) filePaths
         = analyzeDirectoryModules project filePaths"
proof
  assume r: "inj r"
  show "analyzeDirectoryGraph (renameProject r project) filePaths
          = analyzeDirectoryGraph project filePaths
        \<and> analyzeWiringGraph (renameProject r project) filePaths
            = analyzeWiringGraph project filePaths
        \<and> analyzeDirectoryModules (renameProject r project) filePaths
            = analyzeDirectoryModules project filePaths"
    using directory_rename [OF r] wiring_rename modules_rename by simp
qed

theorem analysis_deterministic_witness:
  "inj Suc
   \<and> analyzeDirectoryGraph (renameProject Suc twoFiles) twoFilesPaths
       = analyzeDirectoryGraph twoFiles twoFilesPaths
   \<and> analyzeWiringGraph (renameProject Suc nestApp) nestAppPaths
       = analyzeWiringGraph nestApp nestAppPaths"
  using analysis_deterministic [of Suc twoFiles twoFilesPaths]
    analysis_deterministic [of Suc nestApp nestAppPaths]
  by simp

end
